theory Spec2Isabelle
  imports Complex_Main
begin

section \<open>EnhancedTTSClient: data model\<close>

text \<open>
  The class \<^verbatim>\<open>EnhancedTTSClient\<close> drives the browser's \<^verbatim>\<open>window.speechSynthesis\<close>.
  JavaScript strings are modelled as \<^typ>\<open>string\<close> (ASCII text),
  \<^verbatim>\<open>null\<close>/\<^verbatim>\<open>undefined\<close> as \<^const>\<open>None\<close>, and the numeric settings, which are only
  ever copied, as rationals. Time is not modelled: a timer is pending or has fired.
\<close>

text \<open>A \<^verbatim>\<open>SpeechSynthesisVoice\<close>, with the four fields the client reads.\<close>

record voice =
  v_name :: string
  v_lang :: string
  v_localService :: bool
  v_default :: bool

text \<open>\<^verbatim>\<open>this.voiceSettings\<close>.\<close>

record settings =
  s_rate :: rat
  s_pitch :: rat
  s_volume :: rat
  s_pauseBetween :: nat

text \<open>The argument of \<^verbatim>\<open>updateSettings\<close>: an object holding some of the four keys.\<close>

record partialSettings =
  p_rate :: "rat option"
  p_pitch :: "rat option"
  p_volume :: "rat option"
  p_pauseBetween :: "nat option"

text \<open>An entry of \<^verbatim>\<open>this.emotionalContexts\<close>.\<close>

record emoContext =
  c_rate :: rat
  c_pitch :: rat
  c_volume :: rat
  c_tone :: string

text \<open>The object literal \<^verbatim>\<open>speechItem\<close> built in \<^verbatim>\<open>speak\<close>.\<close>

record speechItem =
  i_text :: string
  i_signType :: "string option"
  i_priority :: string
  i_timestamp :: nat

text \<open>
  The \<^verbatim>\<open>SpeechSynthesisUtterance\<close> built by \<^verbatim>\<open>createUtterance\<close>. The three numbers are
  what the client assigns: a number, or \<^verbatim>\<open>undefined\<close> (\<^const>\<open>None\<close>).
\<close>

record utterance =
  u_text :: string
  u_voice :: "voice option"
  u_rate :: "rat option"
  u_pitch :: "rat option"
  u_volume :: "rat option"

section \<open>Text enhancement\<close>

definition defaultSettings :: settings where
  "defaultSettings =
     \<lparr>s_rate = 9 / 10, s_pitch = 1, s_volume = 9 / 10, s_pauseBetween = 500\<rparr>"

definition contextTable :: "(string \<times> emoContext) list" where
  "contextTable =
    [(''hello'', \<lparr>c_rate = 1, c_pitch = 11 / 10, c_volume = 95 / 100, c_tone = ''friendly''\<rparr>),
     (''thank_you'', \<lparr>c_rate = 8 / 10, c_pitch = 9 / 10, c_volume = 85 / 100, c_tone = ''grateful''\<rparr>),
     (''sorry'', \<lparr>c_rate = 7 / 10, c_pitch = 8 / 10, c_volume = 8 / 10, c_tone = ''apologetic''\<rparr>),
     (''help'', \<lparr>c_rate = 9 / 10, c_pitch = 1, c_volume = 95 / 100, c_tone = ''urgent''\<rparr>),
     (''please'', \<lparr>c_rate = 8 / 10, c_pitch = 9 / 10, c_volume = 85 / 100, c_tone = ''polite''\<rparr>),
     (''love'', \<lparr>c_rate = 75 / 100, c_pitch = 95 / 100, c_volume = 9 / 10, c_tone = ''warm''\<rparr>),
     (''good'', \<lparr>c_rate = 95 / 100, c_pitch = 105 / 100, c_volume = 9 / 10, c_tone = ''positive''\<rparr>),
     (''bad'', \<lparr>c_rate = 85 / 100, c_pitch = 9 / 10, c_volume = 85 / 100, c_tone = ''concerned''\<rparr>)]"

text \<open>
  \<^verbatim>\<open>this.emotionalContexts\<close> is an object literal, so a property read also finds the
  members it inherits from \<^verbatim>\<open>Object.prototype\<close>: functions, and for \<^verbatim>\<open>__proto__\<close> the
  prototype object. All of them are truthy, and none has a property \<^verbatim>\<open>tone\<close>, \<^verbatim>\<open>rate\<close>,
  \<^verbatim>\<open>pitch\<close> or \<^verbatim>\<open>volume\<close>.
\<close>

definition objectPrototypeMembers :: "string list" where
  "objectPrototypeMembers =
    [''constructor'', ''__proto__'', ''hasOwnProperty'', ''isPrototypeOf'',
     ''propertyIsEnumerable'', ''toLocaleString'', ''toString'', ''valueOf'',
     ''__defineGetter__'', ''__defineSetter__'', ''__lookupGetter__'', ''__lookupSetter__'']"

text \<open>
  The value of \<^verbatim>\<open>signType && this.emotionalContexts[signType]\<close>: an entry of the table, an
  inherited member, or a falsy value (the tag is \<^verbatim>\<open>null\<close> or empty, or no property has
  its name).
\<close>

datatype contextLookup = Context emoContext | Inherited | Falsy

definition emotionalContexts :: "string option \<Rightarrow> contextLookup" where
  "emotionalContexts signType =
     (case signType of
        None \<Rightarrow> Falsy
      | Some k \<Rightarrow>
          (if k = [] then Falsy
           else (case map_of contextTable k of
                   Some context \<Rightarrow> Context context
                 | None \<Rightarrow> (if k \<in> set objectPrototypeMembers then Inherited else Falsy))))"

text \<open>The \<^verbatim>\<open>switch (tone)\<close> of \<^verbatim>\<open>enhanceTextForSpeech\<close>, one template per tone.\<close>

definition toneTemplate :: "string \<Rightarrow> string \<Rightarrow> string" where
  "toneTemplate tone enhancedText =
     (if tone = ''friendly'' then ''Hello there! '' @ enhancedText
      else if tone = ''grateful'' then enhancedText @ ''. I really appreciate it.''
      else if tone = ''apologetic'' then ''I'm '' @ enhancedText @ ''. Please forgive me.''
      else if tone = ''urgent'' then ''I need '' @ enhancedText @ ''. Can you help me?''
      else if tone = ''polite'' then enhancedText @ ''. Would that be possible?''
      else if tone = ''warm'' then ''I '' @ enhancedText @ '' you so much.''
      else if tone = ''positive'' then ''That's '' @ enhancedText @ ''! Excellent!''
      else if tone = ''concerned'' then ''That's '' @ enhancedText @ ''. I'm worried about this.''
      else enhancedText)"

text \<open>
  Step 1: the \<^verbatim>\<open>if (signType && ...)\<close> block. For an inherited member \<^verbatim>\<open>context.tone\<close> is
  \<^verbatim>\<open>undefined\<close>, which no \<^verbatim>\<open>case\<close> of the switch matches.
\<close>

definition toneWrap :: "string \<Rightarrow> string option \<Rightarrow> string" where
  "toneWrap txt signType =
     (case emotionalContexts signType of
        Context context \<Rightarrow> toneTemplate (c_tone context) txt
      | Inherited \<Rightarrow> txt
      | Falsy \<Rightarrow> txt)"

text \<open>\<^verbatim>\<open>s.replace(/c/g, r)\<close> for a single literal character \<open>c\<close>.\<close>

fun replaceAll :: "char \<Rightarrow> string \<Rightarrow> string \<Rightarrow> string" where
  "replaceAll c r [] = []"
| "replaceAll c r (x # xs) = (if x = c then r @ replaceAll c r xs else x # replaceAll c r xs)"

text \<open>Step 2: the three \<^verbatim>\<open>replace\<close> calls, in the source's order.\<close>

definition expandPunctuation :: "string \<Rightarrow> string" where
  "expandPunctuation enhancedText =
     replaceAll (CHR ''?'') ''? ''
       (replaceAll (CHR ''!'') ''! ''
         (replaceAll (CHR ''.'') ''... '' enhancedText))"

definition enhanceTextForSpeech :: "string \<Rightarrow> string option \<Rightarrow> string" where
  "enhanceTextForSpeech txt signType = expandPunctuation (toneWrap txt signType)"

section \<open>Voice selection\<close>

text \<open>
  \<^verbatim>\<open>String.prototype.startsWith\<close>, \<^verbatim>\<open>includes\<close> (here \<open>includesStr\<close>) and \<^verbatim>\<open>toLowerCase\<close> on ASCII text
  (\<^verbatim>\<open>toLowerCase\<close> leaves every character outside \<^verbatim>\<open>A\<close>..\<^verbatim>\<open>Z\<close> alone here).
\<close>

fun startsWith :: "string \<Rightarrow> string \<Rightarrow> bool" where
  "startsWith s [] = True"
| "startsWith [] (p # ps) = False"
| "startsWith (c # cs) (p # ps) = (c = p \<and> startsWith cs ps)"

fun includesStr :: "string \<Rightarrow> string \<Rightarrow> bool" where
  "includesStr [] p = (p = [])"
| "includesStr (c # cs) p = (startsWith (c # cs) p \<or> includesStr cs p)"

definition lowerChar :: "char \<Rightarrow> char" where
  "lowerChar c =
     (if (65::nat) \<le> of_char c \<and> (of_char c :: nat) \<le> 90
      then char_of ((of_char c :: nat) + 32) else c)"

definition toLowerCase :: "string \<Rightarrow> string" where
  "toLowerCase s = map lowerChar s"

definition preferredVoices :: "string list" where
  "preferredVoices =
    [''Google US English'',
     ''Microsoft Zira - English (United States)'',
     ''Microsoft David - English (United States)'',
     ''Alex'',
     ''Samantha'',
     ''Karen'',
     ''Moira'']"

text \<open>The \<^verbatim>\<open>for (const preferred of preferredVoices)\<close> loop of \<^verbatim>\<open>selectBestVoice\<close>.\<close>

fun findPreferred :: "string list \<Rightarrow> voice list \<Rightarrow> voice option" where
  "findPreferred [] vs = None"
| "findPreferred (preferred # rest) vs =
     (case find (\<lambda>v. includesStr (v_name v) preferred
                      \<or> includesStr (toLowerCase (v_name v)) (toLowerCase preferred)) vs of
        Some v \<Rightarrow> Some v
      | None \<Rightarrow> findPreferred rest vs)"

text \<open>
  The voice \<^verbatim>\<open>selectBestVoice\<close> assigns: a preferred voice, else the first local English
  voice, else \<^verbatim>\<open>this.voices[0]\<close> (\<^verbatim>\<open>undefined\<close> on an empty array).
\<close>

definition bestVoice :: "voice list \<Rightarrow> voice option" where
  "bestVoice vs =
     (case findPreferred preferredVoices vs of
        Some v \<Rightarrow> Some v
      | None \<Rightarrow>
         (case find (\<lambda>v. startsWith (v_lang v) ''en'' \<and> v_localService v) vs of
            Some englishVoice \<Rightarrow> Some englishVoice
          | None \<Rightarrow> (case vs of [] \<Rightarrow> None | v # _ \<Rightarrow> Some v)))"

section \<open>The client, the synthesis engine and the event loop\<close>

text \<open>
  What the engine knows of a request handed to \<^verbatim>\<open>synthesis.speak\<close>: it is in the
  engine's queue (\<open>Active\<close>), it was removed by \<^verbatim>\<open>synthesis.cancel()\<close> and its final
  event has not been delivered yet (\<open>Cancelled\<close>), or its \<^verbatim>\<open>end\<close>/\<^verbatim>\<open>error\<close> event has been
  delivered (\<open>Done\<close>). A request's handle is its position in the list of requests.
\<close>

datatype reqStatus = Active | Cancelled | Done

text \<open>The arguments of a \<^verbatim>\<open>speak\<close> call suspended at \<^verbatim>\<open>await this.initialize()\<close>.\<close>

type_synonym speakArgs = "string \<times> string option \<times> string"

text \<open>
  The state: the fields of the client; the part of \<^verbatim>\<open>window.speechSynthesis\<close> the client
  touches; and what the JavaScript event loop holds for the client: one entry per
  \<^verbatim>\<open>initialize()\<close> call (is its promise resolved, and which \<^verbatim>\<open>speak\<close> call awaits it), the
  pending \<^verbatim>\<open>setTimeout(loadVoices, 100)\<close> timers by \<^verbatim>\<open>initialize()\<close> call, the number of
  pending \<^verbatim>\<open>setTimeout(() => this.processQueue(), pauseBetween)\<close> timers, and the \<^verbatim>\<open>speak\<close>
  continuations whose promise is resolved and that have not run yet.
\<close>

record world =
  voices :: "voice list"
  currentVoice :: "voice option"
  isInitialized :: bool
  speechQueue :: "speechItem list"
  isSpeaking :: bool
  voiceSettings :: settings
  engineVoices :: "voice list"
  hasOnVoicesChanged :: bool
  onvoiceschanged :: "nat option"
  requests :: "(utterance \<times> reqStatus) list"
  enginePaused :: bool
  initCalls :: "(bool \<times> speakArgs option) list"
  pollTimers :: "nat list"
  pauseTimers :: nat
  continuations :: "speakArgs list"

subsection \<open>The engine\<close>

definition engineSpeak :: "utterance \<Rightarrow> world \<Rightarrow> world" where
  "engineSpeak u w = w\<lparr>requests := requests w @ [(u, Active)]\<rparr>"

definition cancelStatus :: "reqStatus \<Rightarrow> reqStatus" where
  "cancelStatus s = (case s of Active \<Rightarrow> Cancelled | Cancelled \<Rightarrow> Cancelled | Done \<Rightarrow> Done)"

definition engineCancel :: "world \<Rightarrow> world" where
  "engineCancel w = w\<lparr>requests := map (\<lambda>(u, s). (u, cancelStatus s)) (requests w)\<rparr>"

definition statusOf :: "world \<Rightarrow> nat \<Rightarrow> reqStatus option" where
  "statusOf w h = (if h < length (requests w) then Some (snd (requests w ! h)) else None)"

definition markDone :: "nat \<Rightarrow> world \<Rightarrow> world" where
  "markDone h w = w\<lparr>requests := (requests w)[h := (fst (requests w ! h), Done)]\<rparr>"

definition activeRequests :: "world \<Rightarrow> nat" where
  "activeRequests w = length (filter (\<lambda>r. snd r = Active) (requests w))"

subsection \<open>Initialization\<close>

definition selectBestVoice :: "world \<Rightarrow> world" where
  "selectBestVoice w = w\<lparr>currentVoice := bestVoice (voices w)\<rparr>"

text \<open>\<^verbatim>\<open>resolve()\<close> of the promise of \<^verbatim>\<open>initialize()\<close> call \<open>i\<close>: only the first call counts.\<close>

definition resolve :: "nat \<Rightarrow> world \<Rightarrow> world" where
  "resolve i w =
     (if i < length (initCalls w) then
        (case initCalls w ! i of
           (True, _) \<Rightarrow> w
         | (False, None) \<Rightarrow> w\<lparr>initCalls := (initCalls w)[i := (True, None)]\<rparr>
         | (False, Some a) \<Rightarrow>
             w\<lparr>initCalls := (initCalls w)[i := (True, Some a)],
               continuations := continuations w @ [a]\<rparr>)
      else w)"

text \<open>The closure \<^verbatim>\<open>loadVoices\<close> of \<^verbatim>\<open>initialize()\<close> call \<open>i\<close>.\<close>

definition loadVoices :: "nat \<Rightarrow> world \<Rightarrow> world" where
  "loadVoices i w =
     (let w1 = w\<lparr>voices := engineVoices w\<rparr> in
      if length (voices w1) > 0
      then resolve i ((selectBestVoice w1)\<lparr>isInitialized := True\<rparr>)
      else w1\<lparr>pollTimers := pollTimers w1 @ [i]\<rparr>)"

text \<open>
  \<^verbatim>\<open>initialize()\<close>, up to the return of its promise; \<open>awaiting\<close> is the \<^verbatim>\<open>speak\<close> call that
  awaits the promise, if any.
\<close>

definition initialize :: "speakArgs option \<Rightarrow> world \<Rightarrow> world" where
  "initialize awaiting w =
     (let i = length (initCalls w);
          w1 = w\<lparr>initCalls := initCalls w @ [(False, awaiting)]\<rparr>;
          w2 = (if hasOnVoicesChanged w1 then w1\<lparr>onvoiceschanged := Some i\<rparr> else w1)
      in loadVoices i w2)"

text \<open>
  The constructor, for an engine that has the \<^verbatim>\<open>onvoiceschanged\<close> property or not and
  whose \<^verbatim>\<open>getVoices()\<close> returns \<open>catalog\<close>.
\<close>

definition newClient :: "bool \<Rightarrow> voice list \<Rightarrow> world" where
  "newClient hasEvent catalog =
     initialize None
       \<lparr>voices = [], currentVoice = None, isInitialized = False, speechQueue = [],
        isSpeaking = False, voiceSettings = defaultSettings,
        engineVoices = catalog, hasOnVoicesChanged = hasEvent, onvoiceschanged = None,
        requests = [], enginePaused = False,
        initCalls = [], pollTimers = [], pauseTimers = 0, continuations = []\<rparr>"

subsection \<open>Speaking\<close>

text \<open>
  \<^verbatim>\<open>createUtterance\<close>. With an inherited member as context, \<^verbatim>\<open>context.rate\<close>,
  \<^verbatim>\<open>context.pitch\<close> and \<^verbatim>\<open>context.volume\<close> are \<^verbatim>\<open>undefined\<close>, and that is assigned.
\<close>

definition createUtterance :: "string \<Rightarrow> string option \<Rightarrow> world \<Rightarrow> utterance" where
  "createUtterance txt signType w =
     (case emotionalContexts signType of
        Context context \<Rightarrow>
          \<lparr>u_text = enhanceTextForSpeech txt signType, u_voice = currentVoice w,
           u_rate = Some (c_rate context), u_pitch = Some (c_pitch context),
           u_volume = Some (c_volume context)\<rparr>
      | Inherited \<Rightarrow>
          \<lparr>u_text = enhanceTextForSpeech txt signType, u_voice = currentVoice w,
           u_rate = None, u_pitch = None, u_volume = None\<rparr>
      | Falsy \<Rightarrow>
          \<lparr>u_text = enhanceTextForSpeech txt signType, u_voice = currentVoice w,
           u_rate = Some (s_rate (voiceSettings w)), u_pitch = Some (s_pitch (voiceSettings w)),
           u_volume = Some (s_volume (voiceSettings w))\<rparr>)"

definition processQueue :: "world \<Rightarrow> world" where
  "processQueue w =
     (case speechQueue w of
        [] \<Rightarrow> w
      | item # rest \<Rightarrow>
          if isSpeaking w then w
          else
            (let w1 = w\<lparr>isSpeaking := True, speechQueue := rest\<rparr>
             in engineSpeak (createUtterance (i_text item) (i_signType item) w1) w1))"

text \<open>The handlers \<^verbatim>\<open>utterance.onend\<close> and \<^verbatim>\<open>utterance.onerror\<close>.\<close>

definition onend :: "world \<Rightarrow> world" where
  "onend w = w\<lparr>isSpeaking := False, pauseTimers := Suc (pauseTimers w)\<rparr>"

definition onerror :: "world \<Rightarrow> world" where
  "onerror w = processQueue (w\<lparr>isSpeaking := False\<rparr>)"

text \<open>\<^verbatim>\<open>speak\<close> from the construction of \<^verbatim>\<open>speechItem\<close> on; \<open>now\<close> is \<^verbatim>\<open>Date.now()\<close>.\<close>

definition speakBody :: "string \<Rightarrow> string option \<Rightarrow> string \<Rightarrow> nat \<Rightarrow> world \<Rightarrow> world" where
  "speakBody txt signType priority now w =
     (let speechItem = \<lparr>i_text = txt, i_signType = signType, i_priority = priority,
                        i_timestamp = now\<rparr>;
          w1 = (if priority = ''urgent''
                then (engineCancel w)\<lparr>speechQueue := [], isSpeaking := False\<rparr>
                else w);
          w2 = w1\<lparr>speechQueue := speechQueue w1 @ [speechItem]\<rparr>
      in if isSpeaking w2 then w2 else processQueue w2)"

text \<open>
  A call of \<^verbatim>\<open>speak\<close>, up to its return to the caller: either the whole body, or the
  call of \<^verbatim>\<open>initialize()\<close> at whose \<^verbatim>\<open>await\<close> the function suspends.
\<close>

definition speak :: "string \<Rightarrow> string option \<Rightarrow> string \<Rightarrow> nat \<Rightarrow> world \<Rightarrow> world" where
  "speak txt signType priority now w =
     (if isInitialized w then speakBody txt signType priority now w
      else initialize (Some (txt, signType, priority)) w)"

definition stop :: "world \<Rightarrow> world" where
  "stop w = (engineCancel w)\<lparr>speechQueue := [], isSpeaking := False\<rparr>"

definition pause :: "world \<Rightarrow> world" where
  "pause w = w\<lparr>enginePaused := True\<rparr>"

definition resume :: "world \<Rightarrow> world" where
  "resume w = w\<lparr>enginePaused := False\<rparr>"

definition getVoices :: "world \<Rightarrow> voice list" where
  "getVoices w =
     map (\<lambda>v. \<lparr>v_name = v_name v, v_lang = v_lang v, v_localService = v_localService v,
                v_default = v_default v\<rparr>) (voices w)"

definition setVoice :: "string \<Rightarrow> world \<Rightarrow> bool \<times> world" where
  "setVoice voiceName w =
     (case find (\<lambda>v. v_name v = voiceName) (voices w) of
        Some v \<Rightarrow> (True, w\<lparr>currentVoice := Some v\<rparr>)
      | None \<Rightarrow> (False, w))"

definition mergeSettings :: "settings \<Rightarrow> partialSettings \<Rightarrow> settings" where
  "mergeSettings s p =
     \<lparr>s_rate = (case p_rate p of Some x \<Rightarrow> x | None \<Rightarrow> s_rate s),
      s_pitch = (case p_pitch p of Some x \<Rightarrow> x | None \<Rightarrow> s_pitch s),
      s_volume = (case p_volume p of Some x \<Rightarrow> x | None \<Rightarrow> s_volume s),
      s_pauseBetween = (case p_pauseBetween p of Some x \<Rightarrow> x | None \<Rightarrow> s_pauseBetween s)\<rparr>"

definition updateSettings :: "partialSettings \<Rightarrow> world \<Rightarrow> world" where
  "updateSettings p w = w\<lparr>voiceSettings := mergeSettings (voiceSettings w) p\<rparr>"

record status =
  st_isInitialized :: bool
  st_isSpeaking :: bool
  st_queueLength :: nat
  st_currentVoice :: "string option"
  st_settings :: settings

definition getStatus :: "world \<Rightarrow> status" where
  "getStatus w =
     \<lparr>st_isInitialized = isInitialized w,
      st_isSpeaking = isSpeaking w,
      st_queueLength = length (speechQueue w),
      st_currentVoice = (case currentVoice w of Some v \<Rightarrow> Some (v_name v) | None \<Rightarrow> None),
      st_settings = voiceSettings w\<rparr>"

subsection \<open>Steps\<close>

text \<open>
  What can happen to the client: a call of one of its methods, the engine delivering the
  \<^verbatim>\<open>end\<close> or \<^verbatim>\<open>error\<close> event of request \<open>h\<close>, a timer firing, the engine changing its voice
  catalog (and firing \<^verbatim>\<open>voiceschanged\<close>), or a suspended \<^verbatim>\<open>speak\<close> resuming after its
  \<^verbatim>\<open>await\<close>. The engine delivers one final event for each request, also for a request that
  \<^verbatim>\<open>cancel()\<close> removed: that one arrives after the cancelling call has returned.
\<close>

datatype event =
    CallInitialize
  | CallSpeak string "string option" string nat
  | CallStop
  | CallPause
  | CallResume
  | CallSetVoice string
  | CallUpdateSettings partialSettings
  | EngineEnd nat
  | EngineError nat
  | PauseTimer
  | PollTimer nat
  | VoicesChanged "voice list"
  | Continue nat

definition callbackDue :: "world \<Rightarrow> nat \<Rightarrow> bool" where
  "callbackDue w h = (statusOf w h = Some Active \<or> statusOf w h = Some Cancelled)"

fun step :: "event \<Rightarrow> world \<Rightarrow> world" where
  "step CallInitialize w = initialize None w"
| "step (CallSpeak txt signType priority now) w = speak txt signType priority now w"
| "step CallStop w = stop w"
| "step CallPause w = pause w"
| "step CallResume w = resume w"
| "step (CallSetVoice voiceName) w = snd (setVoice voiceName w)"
| "step (CallUpdateSettings p) w = updateSettings p w"
| "step (EngineEnd h) w = (if callbackDue w h then onend (markDone h w) else w)"
| "step (EngineError h) w = (if callbackDue w h then onerror (markDone h w) else w)"
| "step PauseTimer w =
     (if 0 < pauseTimers w then processQueue (w\<lparr>pauseTimers := pauseTimers w - 1\<rparr>) else w)"
| "step (PollTimer i) w =
     (if i \<in> set (pollTimers w) then loadVoices i (w\<lparr>pollTimers := remove1 i (pollTimers w)\<rparr>)
      else w)"
| "step (VoicesChanged catalog) w =
     (let w1 = w\<lparr>engineVoices := catalog\<rparr> in
      case onvoiceschanged w1 of None \<Rightarrow> w1 | Some i \<Rightarrow> loadVoices i w1)"
| "step (Continue now) w =
     (case continuations w of
        [] \<Rightarrow> w
      | (txt, signType, priority) # rest \<Rightarrow>
          speakBody txt signType priority now (w\<lparr>continuations := rest\<rparr>))"

fun run :: "world \<Rightarrow> event list \<Rightarrow> world" where
  "run w [] = w"
| "run w (e # es) = run (step e w) es"

text \<open>A final event delivered for a request that \<^verbatim>\<open>cancel()\<close> had removed.\<close>

fun lateCallback :: "world \<Rightarrow> event \<Rightarrow> bool" where
  "lateCallback w (EngineEnd h) = (statusOf w h = Some Cancelled)"
| "lateCallback w (EngineError h) = (statusOf w h = Some Cancelled)"
| "lateCallback w e = False"

text \<open>Such an event delivered while \<^verbatim>\<open>isSpeaking\<close> is true, in one step and along a run.\<close>

definition lateWhileSpeaking :: "world \<Rightarrow> event \<Rightarrow> bool" where
  "lateWhileSpeaking w e = (isSpeaking w \<and> lateCallback w e)"

fun lateWhileSpeakingIn :: "world \<Rightarrow> event list \<Rightarrow> bool" where
  "lateWhileSpeakingIn w [] = False"
| "lateWhileSpeakingIn w (e # es) = (lateWhileSpeaking w e \<or> lateWhileSpeakingIn (step e w) es)"

text \<open>The texts handed to the engine so far, in the order of the \<^verbatim>\<open>synthesis.speak\<close> calls.\<close>

definition submittedTexts :: "world \<Rightarrow> string list" where
  "submittedTexts w = map (\<lambda>r. u_text (fst r)) (requests w)"

subsection \<open>Sample voices\<close>

definition alex :: voice where
  "alex = \<lparr>v_name = ''Alex'', v_lang = ''en-US'', v_localService = True, v_default = True\<rparr>"

definition zed :: voice where
  "zed = \<lparr>v_name = ''Zed'', v_lang = ''de-DE'', v_localService = False, v_default = False\<rparr>"

subsection \<open>Predicates of the properties\<close>

text \<open>The flag \<^verbatim>\<open>isSpeaking\<close> agrees with the engine: one request in its queue, or none.\<close>

definition oneInFlight :: "world \<Rightarrow> bool" where
  "oneInFlight w = (activeRequests w = (if isSpeaking w then 1 else 0))"

text \<open>The steps in which \<^verbatim>\<open>loadVoices\<close> runs.\<close>

fun loaderRuns :: "event \<Rightarrow> world \<Rightarrow> bool" where
  "loaderRuns CallInitialize w = True"
| "loaderRuns (CallSpeak t signType priority now) w = (\<not> isInitialized w)"
| "loaderRuns (PollTimer i) w = (i \<in> set (pollTimers w))"
| "loaderRuns (VoicesChanged catalog) w = (onvoiceschanged w \<noteq> None)"
| "loaderRuns e w = False"



text \<open>A step that empties the queue: an urgent \<^verbatim>\<open>speak\<close> or \<^verbatim>\<open>stop()\<close>.\<close>

fun preempts :: "event \<Rightarrow> bool" where
  "preempts (CallSpeak t signType priority now) = (priority = ''urgent'')"
| "preempts CallStop = True"
| "preempts e = False"

text \<open>The text and tag of the \<^verbatim>\<open>speak\<close> calls of a run, in the order of the calls.\<close>

fun spoken :: "event list \<Rightarrow> (string \<times> string option) list" where
  "spoken [] = []"
| "spoken (CallSpeak t signType priority now # es) = (t, signType) # spoken es"
| "spoken (e # es) = spoken es"

text \<open>What was handed to the engine, followed by what the queue will hand to it.\<close>

definition pipeline :: "world \<Rightarrow> string list" where
  "pipeline w =
     submittedTexts w
     @ map (\<lambda>item. enhanceTextForSpeech (i_text item) (i_signType item)) (speechQueue w)"

text \<open>An initialized client on whose \<^verbatim>\<open>initialize()\<close> promises no \<^verbatim>\<open>speak\<close> call waits.\<close>

definition noneWaiting :: "world \<Rightarrow> bool" where
  "noneWaiting w =
     (isInitialized w \<and> continuations w = [] \<and> list_all (\<lambda>c. snd c = None) (initCalls w))"

text \<open>
  A sample state: \<^verbatim>\<open>"A"\<close> was playing when the urgent \<^verbatim>\<open>"B"\<close> came, which cancelled it and
  plays; \<^verbatim>\<open>"C"\<close> waits in the queue.
\<close>

definition preempted :: world where
  "preempted = run (newClient True [zed, alex])
     [CallSpeak ''A'' None ''normal'' 1, CallSpeak ''B'' None ''urgent'' 2,
      CallSpeak ''C'' None ''normal'' 3]"

section \<open>Basic facts\<close>

lemmas model_defs = newClient_def initialize_def loadVoices_def resolve_def selectBestVoice_def
  speak_def speakBody_def processQueue_def engineSpeak_def engineCancel_def cancelStatus_def
  stop_def onend_def onerror_def markDone_def statusOf_def callbackDue_def activeRequests_def
  setVoice_def Let_def

lemma bestVoice_sample: "bestVoice [zed, alex] = Some alex"
  by (simp add: bestVoice_def preferredVoices_def alex_def zed_def toLowerCase_def lowerChar_def)

lemma createUtterance_inherited:
  "createUtterance ''Hi.'' (Some ''toString'') w
     = \<lparr>u_text = ''Hi... '', u_voice = currentVoice w,
        u_rate = None, u_pitch = None, u_volume = None\<rparr>"
  by (simp add: createUtterance_def emotionalContexts_def contextTable_def
      objectPrototypeMembers_def enhanceTextForSpeech_def toneWrap_def expandPunctuation_def)

lemma expandPunctuation_Nil: "expandPunctuation [] = []"
  by (simp add: expandPunctuation_def)

lemma expandPunctuation_Cons:
  "expandPunctuation (x # xs) =
     (if x = CHR ''.'' then ''... '' else if x = CHR ''!'' then ''! ''
      else if x = CHR ''?'' then ''? '' else [x]) @ expandPunctuation xs"
  by (simp add: expandPunctuation_def)

lemma toneTemplate_frame: "\<exists>pre suf. \<forall>t. toneTemplate tone t = pre @ t @ suf"
proof -
  have ex: "\<And>a b. (\<And>t. toneTemplate tone t = a @ t @ b) \<Longrightarrow> ?thesis" by blast
  consider (friendly) "tone = ''friendly''" | (grateful) "tone = ''grateful''"
    | (apologetic) "tone = ''apologetic''" | (urgent) "tone = ''urgent''"
    | (polite) "tone = ''polite''" | (warm) "tone = ''warm''"
    | (positive) "tone = ''positive''" | (concerned) "tone = ''concerned''"
    | (other) "tone \<noteq> ''friendly''" "tone \<noteq> ''grateful''" "tone \<noteq> ''apologetic''"
        "tone \<noteq> ''urgent''" "tone \<noteq> ''polite''" "tone \<noteq> ''warm''"
        "tone \<noteq> ''positive''" "tone \<noteq> ''concerned''"
    by blast
  then show ?thesis
  proof cases
    case friendly
    show ?thesis by (rule ex [of "''Hello there! ''" "[]"]) (simp add: toneTemplate_def friendly)
  next
    case grateful
    show ?thesis
      by (rule ex [of "[]" "''. I really appreciate it.''"]) (simp add: toneTemplate_def grateful)
  next
    case apologetic
    show ?thesis
      by (rule ex [of "''I'm ''" "''. Please forgive me.''"]) (simp add: toneTemplate_def apologetic)
  next
    case urgent
    show ?thesis
      by (rule ex [of "''I need ''" "''. Can you help me?''"]) (simp add: toneTemplate_def urgent)
  next
    case polite
    show ?thesis
      by (rule ex [of "[]" "''. Would that be possible?''"]) (simp add: toneTemplate_def polite)
  next
    case warm
    show ?thesis by (rule ex [of "''I ''" "'' you so much.''"]) (simp add: toneTemplate_def warm)
  next
    case positive
    show ?thesis by (rule ex [of "''That's ''" "''! Excellent!''"]) (simp add: toneTemplate_def positive)
  next
    case concerned
    show ?thesis
      by (rule ex [of "''That's ''" "''. I'm worried about this.''"])
         (simp add: toneTemplate_def concerned)
  next
    case other
    show ?thesis by (rule ex [of "[]" "[]"]) (simp add: toneTemplate_def other)
  qed
qed

lemma toneWrap_frame: "\<exists>pre suf. \<forall>t. toneWrap t signType = pre @ t @ suf"
proof (cases "emotionalContexts signType")
  case (Context c)
  then show ?thesis using toneTemplate_frame [of "c_tone c"] by (simp add: toneWrap_def)
next
  case Inherited
  then have "\<forall>t. toneWrap t signType = [] @ t @ []" by (simp add: toneWrap_def)
  then show ?thesis by blast
next
  case Falsy
  then have "\<forall>t. toneWrap t signType = [] @ t @ []" by (simp add: toneWrap_def)
  then show ?thesis by blast
qed

lemma cancelStatus_idem: "cancelStatus (cancelStatus s) = cancelStatus s"
  by (cases s) (simp_all add: cancelStatus_def)

lemma cancel_no_active:
  "length (filter (\<lambda>r. snd r = Active) rs) = 0 \<Longrightarrow> map (\<lambda>(u, s). (u, cancelStatus s)) rs = rs"
proof (induction rs)
  case Nil
  show ?case by simp
next
  case (Cons r rs)
  obtain u s where r: "r = (u, s)" by (cases r)
  from Cons.prems r have "s \<noteq> Active" by (auto split: if_splits)
  then have "cancelStatus s = s" by (cases s) (simp_all add: cancelStatus_def)
  moreover from Cons have "map (\<lambda>(u, s). (u, cancelStatus s)) rs = rs" by (simp split: if_splits)
  ultimately show ?case using r by simp
qed

lemma engineCancel_idle: "activeRequests w = 0 \<Longrightarrow> engineCancel w = w"
  by (simp add: engineCancel_def activeRequests_def cancel_no_active)

lemma cancel_leaves_none_active:
  "filter (\<lambda>r. snd r = Active) (map (\<lambda>(u, s). (u, cancelStatus s)) rs) = []"
proof (induction rs)
  case Nil
  show ?case by simp
next
  case (Cons r rs)
  have "cancelStatus (snd r) \<noteq> Active"
    by (cases "snd r") (simp_all add: cancelStatus_def)
  with Cons show ?case by (simp add: case_prod_unfold)
qed

lemma activeRequests_engineCancel: "activeRequests (engineCancel w) = 0"
  by (simp add: activeRequests_def engineCancel_def cancel_leaves_none_active)

lemma createUtterance_queue [simp]:
  "createUtterance txt signType (w\<lparr>isSpeaking := b, speechQueue := q\<rparr>)
     = createUtterance txt signType w"
  by (simp add: createUtterance_def split: contextLookup.split)

lemma oneInFlight_eq:
  "requests w' = requests w \<Longrightarrow> isSpeaking w' = isSpeaking w \<Longrightarrow> oneInFlight w' = oneInFlight w"
  by (simp add: oneInFlight_def activeRequests_def)

lemma resolve_requests [simp]: "requests (resolve i w) = requests w"
  and resolve_isSpeaking [simp]: "isSpeaking (resolve i w) = isSpeaking w"
  and resolve_speechQueue [simp]: "speechQueue (resolve i w) = speechQueue w"
  by (simp_all add: resolve_def split: prod.split option.split bool.split)

lemma loadVoices_requests [simp]: "requests (loadVoices i w) = requests w"
  and loadVoices_isSpeaking [simp]: "isSpeaking (loadVoices i w) = isSpeaking w"
  and loadVoices_speechQueue [simp]: "speechQueue (loadVoices i w) = speechQueue w"
  by (simp_all add: loadVoices_def selectBestVoice_def Let_def)

lemma initialize_requests [simp]: "requests (initialize a w) = requests w"
  and initialize_isSpeaking [simp]: "isSpeaking (initialize a w) = isSpeaking w"
  and initialize_speechQueue [simp]: "speechQueue (initialize a w) = speechQueue w"
  by (simp_all add: initialize_def Let_def)

lemma oneInFlight_processQueue: "oneInFlight w \<Longrightarrow> oneInFlight (processQueue w)"
  by (auto simp: oneInFlight_def processQueue_def activeRequests_def engineSpeak_def Let_def
      split: list.split if_splits)

lemma oneInFlight_speakBody:
  "oneInFlight w \<Longrightarrow> oneInFlight (speakBody txt signType priority now w)"
proof -
  assume inv: "oneInFlight w"
  let ?item = "\<lparr>i_text = txt, i_signType = signType, i_priority = priority, i_timestamp = now\<rparr>"
  let ?w1 = "if priority = ''urgent''
             then (engineCancel w)\<lparr>speechQueue := [], isSpeaking := False\<rparr> else w"
  have "oneInFlight ((engineCancel w)\<lparr>speechQueue := [], isSpeaking := False\<rparr>)"
    using activeRequests_engineCancel [of w] by (simp add: oneInFlight_def activeRequests_def)
  with inv have w1: "oneInFlight ?w1" by simp
  have "oneInFlight (?w1\<lparr>speechQueue := speechQueue ?w1 @ [?item]\<rparr>)"
    using w1 by (simp add: oneInFlight_def activeRequests_def)
  then show ?thesis
    by (simp add: speakBody_def Let_def oneInFlight_processQueue)
qed

lemma markDone_active:
  "h < length rs \<Longrightarrow> snd (rs ! h) = Active
   \<Longrightarrow> Suc (length (filter (\<lambda>r. snd r = Active) (rs[h := (u, Done)])))
       = length (filter (\<lambda>r. snd r = Active) rs)"
proof (induction rs arbitrary: h)
  case Nil
  then show ?case by simp
next
  case (Cons r rs)
  show ?case
  proof (cases h)
    case 0
    with Cons.prems show ?thesis by simp
  next
    case (Suc k)
    with Cons.prems have "k < length rs" "snd (rs ! k) = Active" by simp_all
    from Cons.IH [OF this] Suc show ?thesis by simp
  qed
qed

lemma activeRequests_markDone:
  "statusOf w h = Some Active \<Longrightarrow> Suc (activeRequests (markDone h w)) = activeRequests w"
  by (simp add: statusOf_def markDone_def activeRequests_def markDone_active split: if_splits)

lemma oneInFlight_callback:
  assumes "oneInFlight w" and "statusOf w h = Some Active"
  shows "oneInFlight (onend (markDone h w))" and "oneInFlight (onerror (markDone h w))"
proof -
  from activeRequests_markDone [OF assms(2)] assms(1)
  have z: "activeRequests (markDone h w) = 0"
    by (simp add: oneInFlight_def split: if_splits)
  then show "oneInFlight (onend (markDone h w))"
    by (simp add: oneInFlight_def onend_def activeRequests_def)
  from z have "oneInFlight ((markDone h w)\<lparr>isSpeaking := False\<rparr>)"
    by (simp add: oneInFlight_def activeRequests_def)
  then show "oneInFlight (onerror (markDone h w))"
    by (simp add: onerror_def oneInFlight_processQueue)
qed

lemma oneInFlight_step:
  assumes "oneInFlight w" and "\<not> lateCallback w e"
  shows "oneInFlight (step e w)"
proof (cases e)
  case CallInitialize
  then show ?thesis using assms(1) by (simp add: oneInFlight_eq [of "initialize None w" w])
next
  case (CallSpeak t signType priority now)
  then show ?thesis using assms(1)
    by (simp add: speak_def oneInFlight_speakBody
        oneInFlight_eq [of "initialize (Some (t, signType, priority)) w" w])
next
  case CallStop
  then show ?thesis using activeRequests_engineCancel [of w]
    by (simp add: stop_def oneInFlight_def activeRequests_def)
next
  case CallPause
  then show ?thesis using assms(1) by (simp add: pause_def oneInFlight_def activeRequests_def)
next
  case CallResume
  then show ?thesis using assms(1) by (simp add: resume_def oneInFlight_def activeRequests_def)
next
  case (CallSetVoice n)
  have "requests (snd (setVoice n w)) = requests w" "isSpeaking (snd (setVoice n w)) = isSpeaking w"
    by (simp_all add: setVoice_def split: option.split)
  from oneInFlight_eq [OF this] CallSetVoice assms(1) show ?thesis by simp
next
  case (CallUpdateSettings p)
  then show ?thesis using assms(1)
    by (simp add: updateSettings_def oneInFlight_def activeRequests_def)
next
  case (EngineEnd h)
  with assms(2) have "callbackDue w h \<Longrightarrow> statusOf w h = Some Active"
    by (auto simp: callbackDue_def)
  with EngineEnd assms(1) show ?thesis by (simp add: oneInFlight_callback)
next
  case (EngineError h)
  with assms(2) have "callbackDue w h \<Longrightarrow> statusOf w h = Some Active"
    by (auto simp: callbackDue_def)
  with EngineError assms(1) show ?thesis by (simp add: oneInFlight_callback)
next
  case PauseTimer
  have "oneInFlight (w\<lparr>pauseTimers := pauseTimers w - 1\<rparr>)"
    using assms(1) by (simp add: oneInFlight_def activeRequests_def)
  with PauseTimer assms(1) show ?thesis by (simp add: oneInFlight_processQueue)
next
  case (PollTimer i)
  then show ?thesis using assms(1)
    by (simp add: oneInFlight_eq [of "loadVoices i (w\<lparr>pollTimers := remove1 i (pollTimers w)\<rparr>)" w])
next
  case (VoicesChanged c)
  have "requests (step (VoicesChanged c) w) = requests w"
    "isSpeaking (step (VoicesChanged c) w) = isSpeaking w"
    by (simp_all add: Let_def split: option.split)
  from oneInFlight_eq [OF this] VoicesChanged assms(1) show ?thesis by simp
next
  case (Continue now)
  have "oneInFlight (w\<lparr>continuations := q\<rparr>)" for q
    using assms(1) by (simp add: oneInFlight_def activeRequests_def)
  with Continue show ?thesis using assms(1)
    by (simp add: oneInFlight_speakBody split: list.split prod.split)
qed

lemma oneInFlight_newClient: "oneInFlight (newClient hasEvent catalog)"
  by (simp add: newClient_def oneInFlight_def activeRequests_def)

lemma markDone_inactive:
  "h < length rs \<Longrightarrow> snd (rs ! h) \<noteq> Active
   \<Longrightarrow> length (filter (\<lambda>r. snd r = Active) (rs[h := (u, Done)]))
       = length (filter (\<lambda>r. snd r = Active) rs)"
proof (induction rs arbitrary: h)
  case Nil
  then show ?case by simp
next
  case (Cons r rs)
  show ?case
  proof (cases h)
    case 0
    with Cons.prems show ?thesis by simp
  next
    case (Suc k)
    with Cons.prems have "k < length rs" "snd (rs ! k) \<noteq> Active" by simp_all
    from Cons.IH [OF this] Suc show ?thesis by simp
  qed
qed

lemma activeRequests_markDone_late:
  "statusOf w h = Some Cancelled \<Longrightarrow> activeRequests (markDone h w) = activeRequests w"
  by (simp add: statusOf_def markDone_def activeRequests_def markDone_inactive split: if_splits)

lemma oneInFlight_late_idle:
  assumes "oneInFlight w" and "\<not> isSpeaking w" and "statusOf w h = Some Cancelled"
  shows "oneInFlight (onend (markDone h w))" and "oneInFlight (onerror (markDone h w))"
proof -
  from activeRequests_markDone_late [OF assms(3)] assms(1,2)
  have z: "activeRequests (markDone h w) = 0"
    by (simp add: oneInFlight_def)
  then show "oneInFlight (onend (markDone h w))"
    by (simp add: oneInFlight_def onend_def activeRequests_def)
  from z have "oneInFlight ((markDone h w)\<lparr>isSpeaking := False\<rparr>)"
    by (simp add: oneInFlight_def activeRequests_def)
  then show "oneInFlight (onerror (markDone h w))"
    by (simp add: onerror_def oneInFlight_processQueue)
qed

lemma oneInFlight_step_fine:
  assumes "oneInFlight w" and "\<not> lateWhileSpeaking w e"
  shows "oneInFlight (step e w)"
proof (cases "lateCallback w e")
  case False
  with assms(1) show ?thesis by (rule oneInFlight_step)
next
  case True
  with assms(2) have idle: "\<not> isSpeaking w" by (simp add: lateWhileSpeaking_def)
  from True show ?thesis
  proof (cases e)
    case (EngineEnd h)
    with True have c: "statusOf w h = Some Cancelled" by simp
    then have "callbackDue w h" by (simp add: callbackDue_def)
    with EngineEnd oneInFlight_late_idle(1) [OF assms(1) idle c] show ?thesis by simp
  next
    case (EngineError h)
    with True have c: "statusOf w h = Some Cancelled" by simp
    then have "callbackDue w h" by (simp add: callbackDue_def)
    with EngineError oneInFlight_late_idle(2) [OF assms(1) idle c] show ?thesis by simp
  qed simp_all
qed

lemma late_while_speaking_breaks:
  assumes "oneInFlight w" and "lateWhileSpeaking w e"
  shows "(\<not> isSpeaking (step e w) \<and> activeRequests (step e w) = 1)
    \<or> (isSpeaking (step e w) \<and> activeRequests (step e w) = 2)"
proof -
  from assms(2) have sp: "isSpeaking w" and late: "lateCallback w e"
    by (simp_all add: lateWhileSpeaking_def)
  from assms(1) sp have one: "activeRequests w = 1" by (simp add: oneInFlight_def)
  from late show ?thesis
  proof (cases e)
    case (EngineEnd h)
    with late have c: "statusOf w h = Some Cancelled" by simp
    then have due: "callbackDue w h" by (simp add: callbackDue_def)
    from activeRequests_markDone_late [OF c] one
    have "activeRequests (onend (markDone h w)) = 1" "\<not> isSpeaking (onend (markDone h w))"
      by (simp_all add: onend_def activeRequests_def)
    with EngineEnd due show ?thesis by simp
  next
    case (EngineError h)
    with late have c: "statusOf w h = Some Cancelled" by simp
    then have due: "callbackDue w h" by (simp add: callbackDue_def)
    let ?u = "markDone h w\<lparr>isSpeaking := False\<rparr>"
    from activeRequests_markDone_late [OF c] one
    have a: "activeRequests ?u = 1" "\<not> isSpeaking ?u"
      by (simp_all add: activeRequests_def)
    have "(\<not> isSpeaking (processQueue ?u) \<and> activeRequests (processQueue ?u) = 1)
      \<or> (isSpeaking (processQueue ?u) \<and> activeRequests (processQueue ?u) = 2)"
    proof (cases "speechQueue ?u")
      case Nil
      with a show ?thesis by (simp add: processQueue_def)
    next
      case (Cons item rest)
      with a show ?thesis
        by (simp add: processQueue_def activeRequests_def engineSpeak_def Let_def)
    qed
    with EngineError due show ?thesis by (simp add: onerror_def)
  qed simp_all
qed

lemma lateWhileSpeakingIn_append:
  "lateWhileSpeakingIn w (es @ rest)
     = (lateWhileSpeakingIn w es \<or> lateWhileSpeakingIn (run w es) rest)"
  by (induction es arbitrary: w) simp_all

lemma oneInFlight_run_fine:
  "oneInFlight w \<Longrightarrow> \<not> lateWhileSpeakingIn w es \<Longrightarrow> oneInFlight (run w es)"
  by (induction es arbitrary: w) (simp_all add: oneInFlight_step_fine)

lemma resolve_currentVoice [simp]: "currentVoice (resolve i w) = currentVoice w"
  and resolve_engineVoices [simp]: "engineVoices (resolve i w) = engineVoices w"
  and resolve_isInitialized [simp]: "isInitialized (resolve i w) = isInitialized w"
  by (simp_all add: resolve_def split: prod.split option.split bool.split)

lemma loadVoices_currentVoice:
  "currentVoice (loadVoices i w)
     = (if engineVoices w = [] then currentVoice w else bestVoice (engineVoices w))"
  by (simp add: loadVoices_def selectBestVoice_def Let_def)

lemma loadVoices_engineVoices [simp]: "engineVoices (loadVoices i w) = engineVoices w"
  by (simp add: loadVoices_def selectBestVoice_def Let_def)

lemma initialize_currentVoice:
  "currentVoice (initialize a w)
     = (if engineVoices w = [] then currentVoice w else bestVoice (engineVoices w))"
  by (simp add: initialize_def Let_def loadVoices_currentVoice)

lemma initialize_engineVoices [simp]: "engineVoices (initialize a w) = engineVoices w"
  by (simp add: initialize_def Let_def)

lemma processQueue_currentVoice [simp]: "currentVoice (processQueue w) = currentVoice w"
  by (simp add: processQueue_def engineSpeak_def Let_def split: list.split)

lemma speakBody_currentVoice [simp]:
  "currentVoice (speakBody t s p now w) = currentVoice w"
  by (simp add: speakBody_def Let_def engineCancel_def)




lemma resolve_handler [simp]: "onvoiceschanged (resolve i w) = onvoiceschanged w"
  and resolve_hasEvent [simp]: "hasOnVoicesChanged (resolve i w) = hasOnVoicesChanged w"
  and resolve_pollTimers [simp]: "pollTimers (resolve i w) = pollTimers w"
  by (simp_all add: resolve_def split: prod.split option.split bool.split)

lemma loadVoices_handler [simp]: "onvoiceschanged (loadVoices i w) = onvoiceschanged w"
  and loadVoices_hasEvent [simp]: "hasOnVoicesChanged (loadVoices i w) = hasOnVoicesChanged w"
  by (simp_all add: loadVoices_def selectBestVoice_def Let_def)

lemma processQueue_handler [simp]: "onvoiceschanged (processQueue w) = onvoiceschanged w"
  by (simp add: processQueue_def engineSpeak_def Let_def split: list.split)

lemma speakBody_handler [simp]: "onvoiceschanged (speakBody t s p now w) = onvoiceschanged w"
  by (simp add: speakBody_def Let_def engineCancel_def)

lemma initialize_handler:
  "\<exists>k. onvoiceschanged w = Some k \<Longrightarrow> \<exists>k. onvoiceschanged (initialize a w) = Some k"
  by (simp add: initialize_def Let_def)

lemma handler_step:
  assumes "\<exists>k. onvoiceschanged w = Some k"
  shows "\<exists>k. onvoiceschanged (step e w) = Some k"
proof (cases e)
  case CallInitialize
  with initialize_handler [OF assms] show ?thesis by simp
next
  case (CallSpeak t signType priority now)
  with initialize_handler [OF assms] assms show ?thesis by (simp add: speak_def)
next
  case (CallSetVoice n)
  with assms show ?thesis by (simp add: setVoice_def split: option.split)
next
  case (VoicesChanged c)
  with assms show ?thesis by (auto simp: Let_def split: option.split)
next
  case (Continue now)
  with assms show ?thesis by (simp split: list.split prod.split)
qed (use assms in \<open>simp_all add: stop_def pause_def resume_def updateSettings_def
      onend_def onerror_def markDone_def engineCancel_def\<close>)

lemma handler_stays:
  "\<exists>k. onvoiceschanged w = Some k \<Longrightarrow> \<exists>k. onvoiceschanged (run w es) = Some k"
proof (induction es arbitrary: w)
  case Nil
  then show ?case by simp
next
  case (Cons e es)
  from Cons.IH [OF handler_step [OF Cons.prems]] show ?case by simp
qed

lemma handler_newClient: "\<exists>k. onvoiceschanged (newClient True catalog) = Some k"
  by (simp add: newClient_def initialize_def Let_def)








section \<open>Text enhancement: tone template, then punctuation\<close>

text \<open>
  Claim C4, as the code has it. \<^const>\<open>enhanceTextForSpeech\<close> is a function: it wraps the
  text in the template of the tag's tone, with the caller's text inserted unchanged and
  once between a fixed prefix and a fixed suffix, and then expands the punctuation of the
  wrapped text. \<^verbatim>\<open>enhance("Hello", "thank_you")\<close> is the text with the gratitude clause,
  expanded; \<^verbatim>\<open>enhance("I am happy.", "love")\<close> is \<^verbatim>\<open>"I I am happy...  you so much... "\<close>,
  with two spaces after the first ellipsis: the space of the expansion and the space of
  the template.
\<close>

theorem enhance_tone_then_punctuation:
  "enhanceTextForSpeech txt signType = expandPunctuation (toneWrap txt signType)
   \<and> (\<exists>pre suf. \<forall>t. toneWrap t signType = pre @ t @ suf)
   \<and> toneWrap ''Hello'' (Some ''thank_you'') = ''Hello. I really appreciate it.''
   \<and> enhanceTextForSpeech ''Hello'' (Some ''thank_you'') = ''Hello...  I really appreciate it... ''
   \<and> toneWrap ''I am happy.'' (Some ''love'') = ''I I am happy. you so much.''
   \<and> enhanceTextForSpeech ''I am happy.'' (Some ''love'') = ''I I am happy...  you so much... ''"
proof (intro conjI)
  show "enhanceTextForSpeech txt signType = expandPunctuation (toneWrap txt signType)"
    by (simp add: enhanceTextForSpeech_def)
  show "\<exists>pre suf. \<forall>t. toneWrap t signType = pre @ t @ suf"
    by (rule toneWrap_frame)
  show "toneWrap ''Hello'' (Some ''thank_you'') = ''Hello. I really appreciate it.''"
    by (simp add: toneWrap_def emotionalContexts_def contextTable_def toneTemplate_def)
  then show "enhanceTextForSpeech ''Hello'' (Some ''thank_you'')
      = ''Hello...  I really appreciate it... ''"
    by (simp add: enhanceTextForSpeech_def expandPunctuation_def)
  show "toneWrap ''I am happy.'' (Some ''love'') = ''I I am happy. you so much.''"
    by (simp add: toneWrap_def emotionalContexts_def contextTable_def toneTemplate_def)
  then show "enhanceTextForSpeech ''I am happy.'' (Some ''love'')
      = ''I I am happy...  you so much... ''"
    by (simp add: enhanceTextForSpeech_def expandPunctuation_def)
qed

text \<open>The string the claim gives for \<^verbatim>\<open>enhance("I am happy.", "love")\<close> is not the result.\<close>

theorem enhance_love_counterexample:
  "enhanceTextForSpeech ''I am happy.'' (Some ''love'') \<noteq> ''I I am happy... you so much... ''"
  by (simp add: enhanceTextForSpeech_def expandPunctuation_def toneWrap_def
      emotionalContexts_def contextTable_def toneTemplate_def)

text \<open>
  Claim C5, as the code has it. Without a tag the result is the punctuation expansion of
  the text, which replaces every period by \<^verbatim>\<open>"... "\<close>, every exclamation mark by \<^verbatim>\<open>"! "\<close>
  and every question mark by \<^verbatim>\<open>"? "\<close>, and keeps every other character. For
  \<^verbatim>\<open>"Hi. Bye!"\<close> that is \<^verbatim>\<open>"Hi...  Bye! "\<close>: the space that followed the period stays, after
  the space of the expansion.
\<close>

theorem punctuation_expansion:
  "enhanceTextForSpeech ''Hi. Bye!'' None = ''Hi...  Bye! ''
   \<and> enhanceTextForSpeech s None = expandPunctuation s
   \<and> expandPunctuation s =
       concat (map (\<lambda>c. if c = CHR ''.'' then ''... '' else if c = CHR ''!'' then ''! ''
                         else if c = CHR ''?'' then ''? '' else [c]) s)"
proof (intro conjI)
  show "enhanceTextForSpeech ''Hi. Bye!'' None = ''Hi...  Bye! ''"
    by (simp add: enhanceTextForSpeech_def toneWrap_def emotionalContexts_def
        expandPunctuation_def)
  show "enhanceTextForSpeech s None = expandPunctuation s"
    by (simp add: enhanceTextForSpeech_def toneWrap_def emotionalContexts_def)
  show "expandPunctuation s =
       concat (map (\<lambda>c. if c = CHR ''.'' then ''... '' else if c = CHR ''!'' then ''! ''
                         else if c = CHR ''?'' then ''? '' else [c]) s)"
    by (induction s)
       (simp_all only: expandPunctuation_Nil expandPunctuation_Cons list.map concat.simps)
qed

text \<open>The string the claim gives for \<^verbatim>\<open>"Hi. Bye!"\<close> has one space too few.\<close>

theorem punctuation_expansion_counterexample:
  "enhanceTextForSpeech ''Hi. Bye!'' None \<noteq> ''Hi... Bye! ''"
  by (simp add: enhanceTextForSpeech_def toneWrap_def emotionalContexts_def
      expandPunctuation_def)

section \<open>Voice choice by name\<close>

text \<open>
  Claim C7. When no voice of \<^verbatim>\<open>this.voices\<close> has exactly the name given, \<^verbatim>\<open>setVoice\<close>
  returns false and the whole state, and so the status, is as before. When one has, it
  returns true and \<^verbatim>\<open>currentVoice\<close> is a voice of the catalog with that name (the first),
  nothing else changing.
\<close>

theorem setVoice_exact_match:
  "(voiceName \<notin> v_name ` set (voices w) \<longrightarrow>
      setVoice voiceName w = (False, w)
      \<and> step (CallSetVoice voiceName) w = w
      \<and> st_currentVoice (getStatus (step (CallSetVoice voiceName) w))
          = st_currentVoice (getStatus w))
   \<and> (voiceName \<in> v_name ` set (voices w) \<longrightarrow>
      (\<exists>v. find (\<lambda>v. v_name v = voiceName) (voices w) = Some v
           \<and> v \<in> set (voices w) \<and> v_name v = voiceName
           \<and> setVoice voiceName w = (True, w\<lparr>currentVoice := Some v\<rparr>)))"
proof (intro conjI impI)
  assume no: "voiceName \<notin> v_name ` set (voices w)"
  then have "find (\<lambda>v. v_name v = voiceName) (voices w) = None"
    by (auto simp: find_None_iff)
  then show a: "setVoice voiceName w = (False, w)"
    by (simp add: setVoice_def)
  then show b: "step (CallSetVoice voiceName) w = w"
    by simp
  then show "st_currentVoice (getStatus (step (CallSetVoice voiceName) w))
          = st_currentVoice (getStatus w)"
    by simp
next
  assume "voiceName \<in> v_name ` set (voices w)"
  then have "find (\<lambda>v. v_name v = voiceName) (voices w) \<noteq> None"
    by (auto simp: find_None_iff)
  then obtain v where v: "find (\<lambda>v. v_name v = voiceName) (voices w) = Some v"
    by blast
  then have "v \<in> set (voices w)" "v_name v = voiceName"
    by (auto simp: find_Some_iff)
  moreover from v have "setVoice voiceName w = (True, w\<lparr>currentVoice := Some v\<rparr>)"
    by (simp add: setVoice_def)
  ultimately show "\<exists>v. find (\<lambda>v. v_name v = voiceName) (voices w) = Some v
           \<and> v \<in> set (voices w) \<and> v_name v = voiceName
           \<and> setVoice voiceName w = (True, w\<lparr>currentVoice := Some v\<rparr>)"
    using v by blast
qed

theorem setVoice_exact_match_witness:
  "''NonexistentVoiceXYZ'' \<notin> v_name ` set (voices (newClient True [zed, alex]))
   \<and> setVoice ''NonexistentVoiceXYZ'' (newClient True [zed, alex])
       = (False, newClient True [zed, alex])
   \<and> ''Zed'' \<in> v_name ` set (voices (newClient True [zed, alex]))
   \<and> fst (setVoice ''Zed'' (newClient True [zed, alex]))"
proof -
  have v: "voices (newClient True [zed, alex]) = [zed, alex]"
    by (simp add: model_defs)
  have h1: "''NonexistentVoiceXYZ'' \<notin> v_name ` set (voices (newClient True [zed, alex]))"
    unfolding v by (simp add: alex_def zed_def)
  have h2: "''Zed'' \<in> v_name ` set (voices (newClient True [zed, alex]))"
    unfolding v by (simp add: alex_def zed_def)
  from h1 h2 setVoice_exact_match [of "''NonexistentVoiceXYZ''" "newClient True [zed, alex]"]
    setVoice_exact_match [of "''Zed''" "newClient True [zed, alex]"]
  show ?thesis by auto
qed

section \<open>Stopping\<close>

text \<open>
  Claim C8. From any state, after \<^verbatim>\<open>stop()\<close> the client is not speaking, its queue is
  empty (so the status reports \<^verbatim>\<open>isSpeaking = false\<close> and \<^verbatim>\<open>queueLength = 0\<close>), the engine
  holds no request, and a second \<^verbatim>\<open>stop()\<close> changes nothing at all.
\<close>

theorem stop_idle_idempotent:
  "isSpeaking (stop w) = False \<and> speechQueue (stop w) = []
   \<and> st_isSpeaking (getStatus (stop w)) = False \<and> st_queueLength (getStatus (stop w)) = 0
   \<and> activeRequests (stop w) = 0
   \<and> stop (stop w) = stop w
   \<and> getStatus (run w [CallStop, CallStop]) = getStatus (run w [CallStop])"
proof -
  have b: "activeRequests (stop w) = 0"
    using activeRequests_engineCancel [of w] by (simp add: stop_def activeRequests_def)
  have c: "stop (stop w) = stop w"
    by (simp add: stop_def engineCancel_def cancelStatus_idem case_prod_unfold comp_def)
  have d: "isSpeaking (stop w) = False" "speechQueue (stop w) = []"
    by (simp_all add: stop_def)
  have e: "st_isSpeaking (getStatus (stop w)) = False" "st_queueLength (getStatus (stop w)) = 0"
    by (simp_all add: getStatus_def d)
  have f: "getStatus (run w [CallStop, CallStop]) = getStatus (run w [CallStop])"
    by (simp add: c)
  from b c d e f show ?thesis by blast
qed

section \<open>An urgent request to an idle client\<close>

text \<open>
  Claim C10, as the code has it. In a state that is not speaking, with an empty queue
  and no request in the engine's queue, the three preemption statements of an urgent
  \<^verbatim>\<open>speak\<close> change nothing, and the body of \<^verbatim>\<open>speak\<close> leaves the same state for priority
  \<^verbatim>\<open>"urgent"\<close> as for \<^verbatim>\<open>"normal"\<close>: it hands one request to the engine, the utterance of the
  text and tag. On an initialized client the call of \<^verbatim>\<open>speak\<close> is that body, so an urgent
  call and a normal call leave the same state: speaking, with an empty queue and that
  one request more at the engine.
\<close>

theorem urgent_is_normal_when_idle:
  assumes "\<not> isSpeaking w" and "speechQueue w = []" and "activeRequests w = 0"
  shows "(engineCancel w)\<lparr>speechQueue := [], isSpeaking := False\<rparr> = w
    \<and> speakBody txt signType ''urgent'' now w = speakBody txt signType ''normal'' now w
    \<and> requests (speakBody txt signType ''urgent'' now w)
        = requests w @ [(createUtterance txt signType w, Active)]
    \<and> (isInitialized w \<longrightarrow>
         step (CallSpeak txt signType ''urgent'' now) w
           = step (CallSpeak txt signType ''normal'' now) w
         \<and> isSpeaking (step (CallSpeak txt signType ''urgent'' now) w)
         \<and> speechQueue (step (CallSpeak txt signType ''urgent'' now) w) = []
         \<and> requests (step (CallSpeak txt signType ''urgent'' now) w)
             = requests w @ [(createUtterance txt signType w, Active)]
         \<and> activeRequests (step (CallSpeak txt signType ''urgent'' now) w) = 1)"
proof -
  have noop: "(engineCancel w)\<lparr>speechQueue := [], isSpeaking := False\<rparr> = w"
    using assms by (simp add: engineCancel_idle)
  have eq: "speakBody txt signType ''urgent'' now w = speakBody txt signType ''normal'' now w"
    using assms(1,2) by (simp add: speakBody_def noop Let_def processQueue_def)
  have body: "requests (speakBody txt signType ''normal'' now w)
        = requests w @ [(createUtterance txt signType w, Active)]"
    "isSpeaking (speakBody txt signType ''normal'' now w)"
    "speechQueue (speakBody txt signType ''normal'' now w) = []"
    using assms
    by (simp_all add: speakBody_def Let_def processQueue_def engineSpeak_def)
  from body(1) assms(3)
  have one: "activeRequests (speakBody txt signType ''normal'' now w) = 1"
    by (simp add: activeRequests_def)
  have call: "isInitialized w \<longrightarrow>
      step (CallSpeak txt signType ''urgent'' now) w = speakBody txt signType ''normal'' now w
      \<and> step (CallSpeak txt signType ''normal'' now) w = speakBody txt signType ''normal'' now w"
    by (simp add: speak_def eq)
  from noop eq body one call show ?thesis by (simp del: step.simps)
qed

theorem urgent_is_normal_when_idle_witness:
  "\<not> isSpeaking (run (newClient True [zed, alex])
        [CallSpeak ''A'' None ''normal'' 1, EngineEnd 0, PauseTimer])
   \<and> speechQueue (run (newClient True [zed, alex])
        [CallSpeak ''A'' None ''normal'' 1, EngineEnd 0, PauseTimer]) = []
   \<and> activeRequests (run (newClient True [zed, alex])
        [CallSpeak ''A'' None ''normal'' 1, EngineEnd 0, PauseTimer]) = 0
   \<and> isInitialized (run (newClient True [zed, alex])
        [CallSpeak ''A'' None ''normal'' 1, EngineEnd 0, PauseTimer])
   \<and> step (CallSpeak ''Help'' (Some ''help'') ''urgent'' 2)
        (run (newClient True [zed, alex])
          [CallSpeak ''A'' None ''normal'' 1, EngineEnd 0, PauseTimer])
     = step (CallSpeak ''Help'' (Some ''help'') ''normal'' 2)
        (run (newClient True [zed, alex])
          [CallSpeak ''A'' None ''normal'' 1, EngineEnd 0, PauseTimer])
   \<and> activeRequests (step (CallSpeak ''Help'' (Some ''help'') ''urgent'' 2)
        (run (newClient True [zed, alex])
          [CallSpeak ''A'' None ''normal'' 1, EngineEnd 0, PauseTimer])) = 1"
proof -
  let ?w = "run (newClient True [zed, alex])
        [CallSpeak ''A'' None ''normal'' 1, EngineEnd 0, PauseTimer]"
  have h1: "\<not> isSpeaking ?w" by (simp add: model_defs)
  have h2: "speechQueue ?w = []" by (simp add: model_defs)
  have h3: "activeRequests ?w = 0" by (simp add: model_defs)
  have h4: "isInitialized ?w" by (simp add: model_defs)
  from urgent_is_normal_when_idle [OF h1 h2 h3, of "''Help''" "Some ''help''" 2] h1 h2 h3 h4
  show ?thesis by blast
qed

text \<open>
  On a client that is not initialized the two calls differ. The client is built before
  the engine has voices (and the engine has no \<^verbatim>\<open>onvoiceschanged\<close>), and \<^verbatim>\<open>speak("B")\<close>
  waits: the state is idle, with an empty queue and nothing at the engine. Now
  \<^verbatim>\<open>speak("U")\<close> is called. The voices arrive, the poll of \<^verbatim>\<open>"B"\<close> resumes it and it plays,
  then the poll of \<^verbatim>\<open>"U"\<close> resumes it: as an urgent request it cancels \<^verbatim>\<open>"B"\<close> and plays, as a
  normal request it waits in the queue behind \<^verbatim>\<open>"B"\<close>.
\<close>

theorem urgent_differs_before_initialization_counterexample:
  "\<not> isSpeaking (run (newClient False []) [CallSpeak ''B'' None ''normal'' 1])
   \<and> speechQueue (run (newClient False []) [CallSpeak ''B'' None ''normal'' 1]) = []
   \<and> activeRequests (run (newClient False []) [CallSpeak ''B'' None ''normal'' 1]) = 0
   \<and> step (CallSpeak ''U'' None ''urgent'' 2)
         (run (newClient False []) [CallSpeak ''B'' None ''normal'' 1])
       \<noteq> step (CallSpeak ''U'' None ''normal'' 2)
         (run (newClient False []) [CallSpeak ''B'' None ''normal'' 1])
   \<and> map snd (requests (run (newClient False [])
        [CallSpeak ''B'' None ''normal'' 1, CallSpeak ''U'' None ''urgent'' 2,
         VoicesChanged [zed, alex], PollTimer 1, Continue 3, PollTimer 2, Continue 4]))
       = [Cancelled, Active]
   \<and> st_queueLength (getStatus (run (newClient False [])
        [CallSpeak ''B'' None ''normal'' 1, CallSpeak ''U'' None ''urgent'' 2,
         VoicesChanged [zed, alex], PollTimer 1, Continue 3, PollTimer 2, Continue 4])) = 0
   \<and> map snd (requests (run (newClient False [])
        [CallSpeak ''B'' None ''normal'' 1, CallSpeak ''U'' None ''normal'' 2,
         VoicesChanged [zed, alex], PollTimer 1, Continue 3, PollTimer 2, Continue 4]))
       = [Active]
   \<and> st_queueLength (getStatus (run (newClient False [])
        [CallSpeak ''B'' None ''normal'' 1, CallSpeak ''U'' None ''normal'' 2,
         VoicesChanged [zed, alex], PollTimer 1, Continue 3, PollTimer 2, Continue 4])) = 1"
proof -
  let ?w = "run (newClient False []) [CallSpeak ''B'' None ''normal'' 1]"
  let ?after = "[VoicesChanged [zed, alex], PollTimer 1, Continue 3, PollTimer 2, Continue 4]"
  have idle: "\<not> isSpeaking ?w" "speechQueue ?w = []" "activeRequests ?w = 0"
    by (simp_all add: model_defs)
  have "initCalls (step (CallSpeak ''U'' None ''urgent'' 2) ?w)
       \<noteq> initCalls (step (CallSpeak ''U'' None ''normal'' 2) ?w)"
    by (simp add: model_defs)
  then have ne: "step (CallSpeak ''U'' None ''urgent'' 2) ?w
       \<noteq> step (CallSpeak ''U'' None ''normal'' 2) ?w"
    by metis
  have u: "map snd (requests (run (newClient False [])
        ([CallSpeak ''B'' None ''normal'' 1, CallSpeak ''U'' None ''urgent'' 2] @ ?after)))
       = [Cancelled, Active]"
    "st_queueLength (getStatus (run (newClient False [])
        ([CallSpeak ''B'' None ''normal'' 1, CallSpeak ''U'' None ''urgent'' 2] @ ?after))) = 0"
    by (simp_all add: model_defs getStatus_def)
  have n: "map snd (requests (run (newClient False [])
        ([CallSpeak ''B'' None ''normal'' 1, CallSpeak ''U'' None ''normal'' 2] @ ?after)))
       = [Active]"
    "st_queueLength (getStatus (run (newClient False [])
        ([CallSpeak ''B'' None ''normal'' 1, CallSpeak ''U'' None ''normal'' 2] @ ?after))) = 1"
    by (simp_all add: model_defs getStatus_def)
  from idle ne u n show ?thesis
    unfolding append.simps by blast
qed

section \<open>Callbacks of cancelled requests\<close>





section \<open>One request in flight\<close>

text \<open>
  Claim C2, as the code has it. Along every run of a new client in which the engine
  delivers no final event of a cancelled request while \<^verbatim>\<open>isSpeaking\<close> is true,
  \<^verbatim>\<open>isSpeaking\<close> is true exactly when the engine's queue holds one request of the client,
  and it never holds more than one (so no step hands a request to the engine while
  another is in flight). Such an event while the client is idle does no harm. The first
  one that arrives while \<^verbatim>\<open>isSpeaking\<close> is true breaks the equivalence.
\<close>

theorem one_request_in_flight:
  "(\<not> lateWhileSpeakingIn (newClient hasEvent catalog) (es @ rest) \<longrightarrow>
      isSpeaking (run (newClient hasEvent catalog) es)
        = (activeRequests (run (newClient hasEvent catalog) es) = 1)
      \<and> activeRequests (run (newClient hasEvent catalog) es) \<le> 1)
   \<and> (\<not> lateWhileSpeakingIn (newClient hasEvent catalog) es
       \<and> lateWhileSpeaking (run (newClient hasEvent catalog) es) e \<longrightarrow>
      isSpeaking (run (newClient hasEvent catalog) (es @ [e]))
        \<noteq> (activeRequests (run (newClient hasEvent catalog) (es @ [e])) = 1))"
proof -
  let ?w0 = "newClient hasEvent catalog"
  have inv: "oneInFlight (run ?w0 xs)" if "\<not> lateWhileSpeakingIn ?w0 xs" for xs
    using that by (rule oneInFlight_run_fine [OF oneInFlight_newClient])
  have run_app: "run w (xs @ ys) = run (run w xs) ys" for w xs ys
    by (induction xs arbitrary: w) simp_all
  have p1: "\<not> lateWhileSpeakingIn ?w0 (es @ rest) \<longrightarrow>
      isSpeaking (run ?w0 es) = (activeRequests (run ?w0 es) = 1)
      \<and> activeRequests (run ?w0 es) \<le> 1"
  proof
    assume "\<not> lateWhileSpeakingIn ?w0 (es @ rest)"
    then have "\<not> lateWhileSpeakingIn ?w0 es" by (simp add: lateWhileSpeakingIn_append)
    from inv [OF this] show "isSpeaking (run ?w0 es) = (activeRequests (run ?w0 es) = 1)
      \<and> activeRequests (run ?w0 es) \<le> 1"
      by (simp add: oneInFlight_def split: if_splits)
  qed
  have p2: "\<not> lateWhileSpeakingIn ?w0 es \<and> lateWhileSpeaking (run ?w0 es) e \<longrightarrow>
      isSpeaking (run ?w0 (es @ [e])) \<noteq> (activeRequests (run ?w0 (es @ [e])) = 1)"
  proof
    assume a: "\<not> lateWhileSpeakingIn ?w0 es \<and> lateWhileSpeaking (run ?w0 es) e"
    then have "oneInFlight (run ?w0 es)" using inv by blast
    from late_while_speaking_breaks [OF this] a
    have "(\<not> isSpeaking (step e (run ?w0 es)) \<and> activeRequests (step e (run ?w0 es)) = 1)
      \<or> (isSpeaking (step e (run ?w0 es)) \<and> activeRequests (step e (run ?w0 es)) = 2)"
      by blast
    then show "isSpeaking (run ?w0 (es @ [e])) \<noteq> (activeRequests (run ?w0 (es @ [e])) = 1)"
      by (auto simp: run_app)
  qed
  from p1 p2 show ?thesis by blast
qed

theorem one_request_in_flight_witness:
  "\<not> lateWhileSpeakingIn (newClient True [zed, alex])
       ([CallSpeak ''A'' None ''normal'' 1, CallStop, EngineError 0,
         CallSpeak ''B'' None ''normal'' 2] @ [EngineEnd 1, PauseTimer])
   \<and> lateCallback (run (newClient True [zed, alex]) [CallSpeak ''A'' None ''normal'' 1, CallStop])
       (EngineError 0)
   \<and> isSpeaking (run (newClient True [zed, alex])
        [CallSpeak ''A'' None ''normal'' 1, CallStop, EngineError 0,
         CallSpeak ''B'' None ''normal'' 2])
       = (activeRequests (run (newClient True [zed, alex])
        [CallSpeak ''A'' None ''normal'' 1, CallStop, EngineError 0,
         CallSpeak ''B'' None ''normal'' 2]) = 1)
   \<and> activeRequests (run (newClient True [zed, alex])
        [CallSpeak ''A'' None ''normal'' 1, CallStop, EngineError 0,
         CallSpeak ''B'' None ''normal'' 2]) \<le> 1
   \<and> \<not> lateWhileSpeakingIn (newClient True [zed, alex])
        [CallSpeak ''A'' None ''normal'' 1, CallSpeak ''B'' None ''urgent'' 2,
         CallSpeak ''C'' None ''normal'' 3]
   \<and> lateWhileSpeaking (run (newClient True [zed, alex])
        [CallSpeak ''A'' None ''normal'' 1, CallSpeak ''B'' None ''urgent'' 2,
         CallSpeak ''C'' None ''normal'' 3]) (EngineEnd 0)
   \<and> isSpeaking (run (newClient True [zed, alex])
        ([CallSpeak ''A'' None ''normal'' 1, CallSpeak ''B'' None ''urgent'' 2,
          CallSpeak ''C'' None ''normal'' 3] @ [EngineEnd 0]))
       \<noteq> (activeRequests (run (newClient True [zed, alex])
        ([CallSpeak ''A'' None ''normal'' 1, CallSpeak ''B'' None ''urgent'' 2,
          CallSpeak ''C'' None ''normal'' 3] @ [EngineEnd 0])) = 1)"
proof -
  have h1: "\<not> lateWhileSpeakingIn (newClient True [zed, alex])
       ([CallSpeak ''A'' None ''normal'' 1, CallStop, EngineError 0,
         CallSpeak ''B'' None ''normal'' 2] @ [EngineEnd 1, PauseTimer])"
    by (simp add: model_defs lateWhileSpeaking_def)
  have l: "lateCallback (run (newClient True [zed, alex])
      [CallSpeak ''A'' None ''normal'' 1, CallStop]) (EngineError 0)"
    by (simp add: model_defs)
  have h2: "\<not> lateWhileSpeakingIn (newClient True [zed, alex])
        [CallSpeak ''A'' None ''normal'' 1, CallSpeak ''B'' None ''urgent'' 2,
         CallSpeak ''C'' None ''normal'' 3]"
    by (simp add: model_defs lateWhileSpeaking_def)
  have h3: "lateWhileSpeaking (run (newClient True [zed, alex])
        [CallSpeak ''A'' None ''normal'' 1, CallSpeak ''B'' None ''urgent'' 2,
         CallSpeak ''C'' None ''normal'' 3]) (EngineEnd 0)"
    by (simp add: model_defs lateWhileSpeaking_def)
  from h1 l h2 h3
    one_request_in_flight [of True "[zed, alex]"
      "[CallSpeak ''A'' None ''normal'' 1, CallStop, EngineError 0,
        CallSpeak ''B'' None ''normal'' 2]" "[EngineEnd 1, PauseTimer]"]
    one_request_in_flight [of True "[zed, alex]"
      "[CallSpeak ''A'' None ''normal'' 1, CallSpeak ''B'' None ''urgent'' 2,
        CallSpeak ''C'' None ''normal'' 3]" _ "EngineEnd 0"]
  show ?thesis by blast
qed

text \<open>
  With the final event of the cancelled request \<open>0\<close> while \<^verbatim>\<open>"B"\<close> plays: after its \<^verbatim>\<open>error\<close>
  event two requests are in the engine's queue; after its \<^verbatim>\<open>end\<close> event \<^verbatim>\<open>isSpeaking\<close> is
  false while \<^verbatim>\<open>"B"\<close> is in flight.
\<close>

theorem two_requests_counterexample:
  "isSpeaking (step (EngineError 0) preempted)
   \<and> activeRequests (step (EngineError 0) preempted) = 2
   \<and> \<not> isSpeaking (step (EngineEnd 0) preempted)
   \<and> activeRequests (step (EngineEnd 0) preempted) = 1"
  by (simp add: preempted_def model_defs)

section \<open>Order of playback\<close>

lemma pipeline_eq:
  "requests w' = requests w \<Longrightarrow> speechQueue w' = speechQueue w \<Longrightarrow> pipeline w' = pipeline w"
  by (simp add: pipeline_def submittedTexts_def)

lemma u_text_createUtterance [simp]:
  "u_text (createUtterance t s w) = enhanceTextForSpeech t s"
  by (simp add: createUtterance_def split: contextLookup.split)

lemma pipeline_processQueue [simp]: "pipeline (processQueue w) = pipeline w"
  by (simp add: pipeline_def submittedTexts_def processQueue_def engineSpeak_def Let_def
      split: list.split)

lemma pipeline_speakBody:
  "p \<noteq> ''urgent'' \<Longrightarrow>
   pipeline (speakBody t s p now w) = pipeline w @ [enhanceTextForSpeech t s]"
proof -
  assume "p \<noteq> ''urgent''"
  moreover have "pipeline (w\<lparr>speechQueue := speechQueue w @ [\<lparr>i_text = t, i_signType = s,
      i_priority = p, i_timestamp = now\<rparr>]\<rparr>) = pipeline w @ [enhanceTextForSpeech t s]"
    by (simp add: pipeline_def submittedTexts_def)
  ultimately show ?thesis by (simp add: speakBody_def Let_def)
qed

lemma submitted_markDone [simp]: "submittedTexts (markDone h w) = submittedTexts w"
proof (cases "h < length (requests w)")
  case True
  then show ?thesis
    by (simp add: submittedTexts_def markDone_def map_update list_update_same_conv)
next
  case False
  then show ?thesis by (simp add: submittedTexts_def markDone_def list_update_beyond)
qed

lemma pipeline_markDone [simp]:
  "pipeline (markDone h w\<lparr>isSpeaking := b\<rparr>) = pipeline w"
  "pipeline (onend (markDone h w)) = pipeline w"
proof -
  have "submittedTexts (markDone h w\<lparr>isSpeaking := b\<rparr>) = submittedTexts (markDone h w)"
    "submittedTexts (onend (markDone h w)) = submittedTexts (markDone h w)"
    by (simp_all add: submittedTexts_def onend_def)
  moreover have "speechQueue (markDone h w) = speechQueue w"
    by (simp add: markDone_def)
  ultimately show "pipeline (markDone h w\<lparr>isSpeaking := b\<rparr>) = pipeline w"
    "pipeline (onend (markDone h w)) = pipeline w"
    by (simp_all add: pipeline_def onend_def)
qed

lemma resolve_noneWaiting:
  "list_all (\<lambda>c. snd c = None) (initCalls w) \<Longrightarrow>
   continuations (resolve i w) = continuations w
   \<and> list_all (\<lambda>c. snd c = None) (initCalls (resolve i w))"
  by (auto simp: resolve_def list_all_length nth_list_update split: prod.split option.split bool.split)

lemma noneWaiting_loadVoices:
  assumes "noneWaiting w"
  shows "noneWaiting (loadVoices i w)"
proof -
  let ?u = "(selectBestVoice (w\<lparr>voices := engineVoices w\<rparr>))\<lparr>isInitialized := True\<rparr>"
  from assms have "list_all (\<lambda>c. snd c = None) (initCalls ?u)"
    by (simp add: noneWaiting_def selectBestVoice_def)
  from resolve_noneWaiting [OF this, of i] assms show ?thesis
    by (simp add: noneWaiting_def loadVoices_def Let_def selectBestVoice_def)
qed

lemma noneWaiting_initialize: "noneWaiting w \<Longrightarrow> noneWaiting (initialize None w)"
proof -
  assume a: "noneWaiting w"
  have "noneWaiting (w\<lparr>initCalls := initCalls w @ [(False, None)]\<rparr>)"
    "noneWaiting (w\<lparr>initCalls := initCalls w @ [(False, None)],
        onvoiceschanged := Some (length (initCalls w))\<rparr>)"
    using a by (simp_all add: noneWaiting_def)
  then show ?thesis
    by (simp add: initialize_def Let_def noneWaiting_loadVoices)
qed

lemma noneWaiting_eq:
  "isInitialized w' = isInitialized w \<Longrightarrow> continuations w' = continuations w
   \<Longrightarrow> initCalls w' = initCalls w \<Longrightarrow> noneWaiting w' = noneWaiting w"
  by (simp add: noneWaiting_def)

lemma processQueue_waiting [simp]:
  "isInitialized (processQueue w) = isInitialized w"
  "continuations (processQueue w) = continuations w"
  "initCalls (processQueue w) = initCalls w"
  by (simp_all add: processQueue_def engineSpeak_def Let_def split: list.split)

lemma speakBody_waiting [simp]:
  "isInitialized (speakBody t s p now w) = isInitialized w"
  "continuations (speakBody t s p now w) = continuations w"
  "initCalls (speakBody t s p now w) = initCalls w"
  by (simp_all add: speakBody_def Let_def engineCancel_def)

lemma fifo_step:
  assumes "noneWaiting w" and "\<not> preempts e"
  shows "noneWaiting (step e w)
    \<and> pipeline (step e w) = pipeline w @ map (\<lambda>(t, s). enhanceTextForSpeech t s) (spoken [e])"
proof (cases e)
  case CallInitialize
  then show ?thesis using assms(1)
    by (simp add: noneWaiting_initialize pipeline_eq [of "initialize None w" w])
next
  case (CallSpeak t signType priority now)
  with assms have "isInitialized w" "priority \<noteq> ''urgent''"
    by (simp_all add: noneWaiting_def)
  with CallSpeak assms(1) show ?thesis
    by (simp add: speak_def pipeline_speakBody
        noneWaiting_eq [of "speakBody t signType priority now w" w])
next
  case CallStop
  with assms(2) show ?thesis by simp
next
  case CallPause
  then show ?thesis using assms(1)
    by (simp add: pause_def noneWaiting_def pipeline_def submittedTexts_def)
next
  case CallResume
  then show ?thesis using assms(1)
    by (simp add: resume_def noneWaiting_def pipeline_def submittedTexts_def)
next
  case (CallSetVoice n)
  then show ?thesis using assms(1)
    by (simp add: setVoice_def noneWaiting_def pipeline_def submittedTexts_def split: option.split)
next
  case (CallUpdateSettings p)
  then show ?thesis using assms(1)
    by (simp add: updateSettings_def noneWaiting_def pipeline_def submittedTexts_def)
next
  case (EngineEnd h)
  have "isInitialized (onend (markDone h w)) = isInitialized w"
    "continuations (onend (markDone h w)) = continuations w"
    "initCalls (onend (markDone h w)) = initCalls w"
    by (simp_all add: onend_def markDone_def)
  from noneWaiting_eq [OF this] EngineEnd assms(1) show ?thesis by simp
next
  case (EngineError h)
  have "isInitialized (onerror (markDone h w)) = isInitialized w"
    "continuations (onerror (markDone h w)) = continuations w"
    "initCalls (onerror (markDone h w)) = initCalls w"
    "pipeline (onerror (markDone h w)) = pipeline w"
    by (simp_all add: onerror_def) (simp_all add: markDone_def)
  from noneWaiting_eq [OF this(1-3)] this(4) EngineError assms(1) show ?thesis by simp
next
  case PauseTimer
  have "pipeline (w\<lparr>pauseTimers := pauseTimers w - 1\<rparr>) = pipeline w"
    by (simp add: pipeline_def submittedTexts_def)
  moreover have "noneWaiting (processQueue (w\<lparr>pauseTimers := pauseTimers w - 1\<rparr>))"
    using assms(1) by (simp add: noneWaiting_def)
  ultimately show ?thesis using PauseTimer assms(1) by simp
next
  case (PollTimer i)
  have "noneWaiting (w\<lparr>pollTimers := remove1 i (pollTimers w)\<rparr>)"
    using assms(1) by (simp add: noneWaiting_def)
  from noneWaiting_loadVoices [OF this, of i] PollTimer assms(1) show ?thesis
    by (simp add: pipeline_eq [of "loadVoices i (w\<lparr>pollTimers := remove1 i (pollTimers w)\<rparr>)" w])
next
  case (VoicesChanged c)
  have n: "noneWaiting (w\<lparr>engineVoices := c\<rparr>)"
    using assms(1) by (simp add: noneWaiting_def)
  have p: "pipeline (w\<lparr>engineVoices := c\<rparr>) = pipeline w"
    and q: "pipeline (loadVoices i (w\<lparr>engineVoices := c\<rparr>)) = pipeline w" for i
    by (simp_all add: pipeline_def submittedTexts_def)
  from n noneWaiting_loadVoices [OF n] p q VoicesChanged show ?thesis
    by (simp add: Let_def split: option.split)
next
  case (Continue now)
  with assms(1) show ?thesis by (simp add: noneWaiting_def)
qed

lemma spoken_Cons: "spoken (e # es) = spoken [e] @ spoken es"
  by (cases e) simp_all

lemma fifo_run:
  "noneWaiting w \<Longrightarrow> \<not> list_ex preempts es \<Longrightarrow>
   pipeline (run w es) = pipeline w @ map (\<lambda>(t, s). enhanceTextForSpeech t s) (spoken es)"
proof (induction es arbitrary: w)
  case Nil
  then show ?case by simp
next
  case (Cons e es)
  from Cons.prems have e: "\<not> preempts e" and es: "\<not> list_ex preempts es" by simp_all
  from fifo_step [OF Cons.prems(1) e] Cons.IH [of "step e w"] es
  have "pipeline (run (step e w) es)
      = (pipeline w @ map (\<lambda>(t, s). enhanceTextForSpeech t s) (spoken [e]))
        @ map (\<lambda>(t, s). enhanceTextForSpeech t s) (spoken es)"
    by simp
  then show ?case by (simp add: spoken_Cons [of e es])
qed

text \<open>
  On a client built when the engine has its voices, a run without urgent requests and
  without \<^verbatim>\<open>stop()\<close> hands the texts to the engine in the order of the \<^verbatim>\<open>speak\<close> calls:
  what the engine has got, followed by the queue, is the sequence of the calls.
\<close>

lemma fifo_once_initialized:
  assumes "catalog \<noteq> []" and "\<not> list_ex preempts es"
  shows "submittedTexts (run (newClient hasEvent catalog) es)
      @ map (\<lambda>item. enhanceTextForSpeech (i_text item) (i_signType item))
          (speechQueue (run (newClient hasEvent catalog) es))
    = map (\<lambda>(t, s). enhanceTextForSpeech t s) (spoken es)"
proof -
  from assms(1) have "noneWaiting (newClient hasEvent catalog)"
    by (simp add: noneWaiting_def model_defs)
  moreover have "pipeline (newClient hasEvent catalog) = []"
    by (simp add: pipeline_def submittedTexts_def newClient_def)
  ultimately show ?thesis using fifo_run [OF _ assms(2), of "newClient hasEvent catalog"]
    by (simp add: pipeline_def)
qed


text \<open>
  Claim C3 at a run the code can make. The client is built before the engine has its
  voices. \<^verbatim>\<open>speak("A")\<close> and then \<^verbatim>\<open>speak("B")\<close>, both of normal priority, each call
  \<^verbatim>\<open>initialize()\<close> and wait for its own promise; the second call's \<^verbatim>\<open>loadVoices\<close> replaces
  the first as \<^verbatim>\<open>onvoiceschanged\<close> handler. When the voices arrive the handler resolves the
  promise of \<^verbatim>\<open>"B"\<close>, which is enqueued and played; \<^verbatim>\<open>"A"\<close> follows at the next poll of its
  own timer. The engine gets \<^verbatim>\<open>"B"\<close> before \<^verbatim>\<open>"A"\<close>.
\<close>

theorem speak_before_voices_load_reorders:
  "submittedTexts (run (newClient True [])
     [CallSpeak ''A'' None ''normal'' 1, CallSpeak ''B'' None ''normal'' 2,
      VoicesChanged [zed, alex], Continue 3, PollTimer 1, Continue 4,
      EngineEnd 0, PauseTimer]) = [''B'', ''A'']"
  by (simp add: submittedTexts_def model_defs createUtterance_def enhanceTextForSpeech_def
      expandPunctuation_def toneWrap_def emotionalContexts_def)


section \<open>Automatic voice selection\<close>

text \<open>
  Claim C6, as the code has it. Every run of \<^verbatim>\<open>loadVoices\<close> that finds a non-empty
  catalog assigns to \<^verbatim>\<open>currentVoice\<close> the voice \<^verbatim>\<open>selectBestVoice\<close> picks from it, whatever
  the voice was before. \<^verbatim>\<open>loadVoices\<close> runs in every \<^verbatim>\<open>initialize()\<close> call (also the one of
  a \<^verbatim>\<open>speak\<close> on a client not yet initialized), at every poll timer, and at every
  \<^verbatim>\<open>voiceschanged\<close> event of the engine: on an engine that has the event the handler
  stays registered in every state the client reaches, so each such event with a
  non-empty catalog assigns the voice again. A \<^verbatim>\<open>setVoice\<close> call that finds the name
  assigns the voice found. Every other step leaves \<^verbatim>\<open>currentVoice\<close> as it is.
\<close>

theorem currentVoice_assignments:
  "(loaderRuns e w \<and> engineVoices (step e w) \<noteq> [] \<longrightarrow>
      currentVoice (step e w) = bestVoice (engineVoices (step e w)))
   \<and> (e = CallSetVoice voiceName \<and> find (\<lambda>v. v_name v = voiceName) (voices w) = Some v \<longrightarrow>
      currentVoice (step e w) = Some v)
   \<and> (\<not> (loaderRuns e w \<and> engineVoices (step e w) \<noteq> [])
       \<and> (\<forall>n. e = CallSetVoice n \<longrightarrow> find (\<lambda>v. v_name v = n) (voices w) = None) \<longrightarrow>
      currentVoice (step e w) = currentVoice w)
   \<and> (c \<noteq> [] \<longrightarrow>
      currentVoice (step (VoicesChanged c) (run (newClient True catalog) es)) = bestVoice c)
   \<and> (engineVoices w \<noteq> [] \<longrightarrow>
      currentVoice (step CallInitialize w) = bestVoice (engineVoices w)
      \<and> (i \<in> set (pollTimers w) \<longrightarrow>
           currentVoice (step (PollTimer i) w) = bestVoice (engineVoices w))
      \<and> (\<not> isInitialized w \<longrightarrow>
           currentVoice (step (CallSpeak t s p now) w) = bestVoice (engineVoices w)))"
proof -
  have p1: "loaderRuns e w \<and> engineVoices (step e w) \<noteq> [] \<longrightarrow>
      currentVoice (step e w) = bestVoice (engineVoices (step e w))"
    by (cases e) (auto simp: initialize_currentVoice loadVoices_currentVoice speak_def Let_def
        split: option.split)
  have p2: "e = CallSetVoice voiceName \<and> find (\<lambda>v. v_name v = voiceName) (voices w) = Some v \<longrightarrow>
      currentVoice (step e w) = Some v"
    by (simp add: setVoice_def)
  have p3: "\<not> (loaderRuns e w \<and> engineVoices (step e w) \<noteq> [])
       \<and> (\<forall>n. e = CallSetVoice n \<longrightarrow> find (\<lambda>v. v_name v = n) (voices w) = None) \<longrightarrow>
      currentVoice (step e w) = currentVoice w"
  proof (cases e)
    case CallInitialize
    then show ?thesis by (simp add: initialize_currentVoice)
  next
    case (CallSpeak t signType priority now)
    then show ?thesis by (simp add: speak_def initialize_currentVoice)
  next
    case CallStop
    then show ?thesis by (simp add: stop_def engineCancel_def)
  next
    case CallPause
    then show ?thesis by (simp add: pause_def)
  next
    case CallResume
    then show ?thesis by (simp add: resume_def)
  next
    case (CallSetVoice n)
    then show ?thesis by (simp add: setVoice_def)
  next
    case (CallUpdateSettings p)
    then show ?thesis by (simp add: updateSettings_def)
  next
    case (EngineEnd h)
    then show ?thesis by (simp add: onend_def markDone_def)
  next
    case (EngineError h)
    then show ?thesis by (simp add: onerror_def markDone_def)
  next
    case PauseTimer
    then show ?thesis by simp
  next
    case (PollTimer i)
    then show ?thesis by (simp add: loadVoices_currentVoice)
  next
    case (VoicesChanged c)
    then show ?thesis by (simp add: loadVoices_currentVoice Let_def split: option.split)
  next
    case (Continue now)
    then show ?thesis by (simp split: list.split prod.split)
  qed
  have p4: "c \<noteq> [] \<longrightarrow>
      currentVoice (step (VoicesChanged c) (run (newClient True catalog) es)) = bestVoice c"
    using handler_stays [OF handler_newClient, of catalog es]
    by (auto simp: Let_def loadVoices_currentVoice split: option.split)
  have p5: "engineVoices w \<noteq> [] \<longrightarrow>
      currentVoice (step CallInitialize w) = bestVoice (engineVoices w)
      \<and> (i \<in> set (pollTimers w) \<longrightarrow>
           currentVoice (step (PollTimer i) w) = bestVoice (engineVoices w))
      \<and> (\<not> isInitialized w \<longrightarrow>
           currentVoice (step (CallSpeak t s p now) w) = bestVoice (engineVoices w))"
    by (simp add: initialize_currentVoice loadVoices_currentVoice speak_def)
  from p1 p2 p3 p4 p5 show ?thesis by blast
qed


theorem currentVoice_assignments_witness:
  "loaderRuns (VoicesChanged [zed, alex])
       (run (newClient True [zed, alex]) [CallSetVoice ''Zed''])
   \<and> engineVoices (step (VoicesChanged [zed, alex])
       (run (newClient True [zed, alex]) [CallSetVoice ''Zed''])) \<noteq> []
   \<and> currentVoice (step (VoicesChanged [zed, alex])
       (run (newClient True [zed, alex]) [CallSetVoice ''Zed'']))
     = bestVoice (engineVoices (step (VoicesChanged [zed, alex])
       (run (newClient True [zed, alex]) [CallSetVoice ''Zed''])))
   \<and> find (\<lambda>v. v_name v = ''Zed'') (voices (newClient True [zed, alex])) = Some zed
   \<and> currentVoice (step (CallSetVoice ''Zed'') (newClient True [zed, alex])) = Some zed
   \<and> \<not> loaderRuns CallPause (newClient True [zed, alex])
   \<and> currentVoice (step CallPause (newClient True [zed, alex]))
       = currentVoice (newClient True [zed, alex])
   \<and> currentVoice (step (VoicesChanged [zed, alex])
       (run (newClient True [zed, alex]) [CallSetVoice ''Zed''])) = bestVoice [zed, alex]
   \<and> engineVoices (step (VoicesChanged [zed, alex]) (newClient False [])) \<noteq> []
   \<and> currentVoice (step CallInitialize (step (VoicesChanged [zed, alex]) (newClient False [])))
       = bestVoice (engineVoices (step (VoicesChanged [zed, alex]) (newClient False [])))"
proof -
  let ?w = "run (newClient True [zed, alex]) [CallSetVoice ''Zed'']"
  let ?u = "step (VoicesChanged [zed, alex]) (newClient False [])"
  have n: "v_name zed = ''Zed''" "v_name alex = ''Alex''"
    by (simp_all add: zed_def alex_def)
  have h1: "loaderRuns (VoicesChanged [zed, alex]) ?w"
    "engineVoices (step (VoicesChanged [zed, alex]) ?w) \<noteq> []"
    by (simp_all add: model_defs n)
  have h2: "find (\<lambda>v. v_name v = ''Zed'') (voices (newClient True [zed, alex])) = Some zed"
    by (simp add: model_defs n)
  have h3: "\<not> loaderRuns CallPause (newClient True [zed, alex])"
    "\<forall>n. CallPause = CallSetVoice n \<longrightarrow>
       find (\<lambda>v. v_name v = n) (voices (newClient True [zed, alex])) = None"
    by simp_all
  have h4: "[zed, alex] \<noteq> []" by simp
  have h5: "engineVoices ?u \<noteq> []" by (simp add: model_defs)
  note T = currentVoice_assignments
  from h1 T [of "VoicesChanged [zed, alex]" ?w "[]" zed "[]" "[]" "[]" 0 "[]" None "[]" 0]
  have c1: "currentVoice (step (VoicesChanged [zed, alex]) ?w)
     = bestVoice (engineVoices (step (VoicesChanged [zed, alex]) ?w))"
    by blast
  from h2 T [of "CallSetVoice ''Zed''" "newClient True [zed, alex]" "''Zed''" zed
      "[]" "[]" "[]" 0 "[]" None "[]" 0]
  have c2: "currentVoice (step (CallSetVoice ''Zed'') (newClient True [zed, alex])) = Some zed"
    by blast
  from h3 T [of CallPause "newClient True [zed, alex]" "[]" zed "[]" "[]" "[]" 0 "[]" None "[]" 0]
  have c3: "currentVoice (step CallPause (newClient True [zed, alex]))
       = currentVoice (newClient True [zed, alex])"
    by blast
  from h4 T [of CallPause ?u "[]" zed "[zed, alex]" "[zed, alex]" "[CallSetVoice ''Zed'']"
      0 "[]" None "[]" 0]
  have c4: "currentVoice (step (VoicesChanged [zed, alex]) ?w) = bestVoice [zed, alex]"
    by blast
  from h5 T [of CallPause ?u "[]" zed "[]" "[]" "[]" 0 "[]" None "[]" 0]
  have c5: "currentVoice (step CallInitialize ?u) = bestVoice (engineVoices ?u)"
    by blast
  from h1 h2 h3(1) h5 c1 c2 c3 c4 c5 show ?thesis by blast
qed

text \<open>
  After initialization and a \<^verbatim>\<open>setVoice("Zed")\<close>, a \<^verbatim>\<open>voiceschanged\<close> event of the engine
  puts the voice back to the one \<^verbatim>\<open>selectBestVoice\<close> prefers.
\<close>

theorem currentVoice_once_counterexample:
  "isInitialized (run (newClient True [zed, alex]) [CallSetVoice ''Zed''])
   \<and> currentVoice (run (newClient True [zed, alex]) [CallSetVoice ''Zed'']) = Some zed
   \<and> currentVoice (run (newClient True [zed, alex])
        [CallSetVoice ''Zed'', VoicesChanged [zed, alex]]) = Some alex"
proof -
  have n: "v_name zed = ''Zed''" "v_name alex = ''Alex''"
    by (simp_all add: zed_def alex_def)
  show ?thesis
    by (simp add: model_defs bestVoice_sample n)
qed

section \<open>Speaking before the voices are loaded\<close>




end
